theory Spec2Isabelle
  imports Main "HOL-Library.Multiset"
begin

section \<open>JavaScript values, numbers and strings\<close>

text \<open>
  The server of \<^verbatim>\<open>src/server.js\<close> receives JSON values from its clients and works
  on JavaScript numbers and strings. Strings are lists of ASCII characters. The numbers
  the server computes itself (ids, scores, indices, clock differences) are integers far
  below \<open>2 ^ 53\<close>, where a JavaScript double is the integer it prints; they are of type
  \<open>int\<close>.
\<close>

definition MAX_QUESTIONS :: nat where
  "MAX_QUESTIONS = 10"

definition TIME_PER_QUESTION_SECONDS :: int where
  "TIME_PER_QUESTION_SECONDS = 60"

text \<open>The decimal digits of a natural number, and of an integer with its minus sign.\<close>

definition digit_char :: "nat \<Rightarrow> char" where
  "digit_char d = ''0123456789'' ! (d mod 10)"

fun show_nat :: "nat \<Rightarrow> string" where
  "show_nat n = (if n < 10 then [digit_char n] else show_nat (n div 10) @ [digit_char n])"

declare show_nat.simps [simp del]

definition show_int :: "int \<Rightarrow> string" where
  "show_int i = (if i < 0 then CHR ''-'' # show_nat (nat (- i)) else show_nat (nat i))"

subsection \<open>Numbers\<close>

text \<open>
  A client can send any number. A number is given here the way \<open>Number::toString\<close>
  takes it apart: \<open>NaN\<close>, the infinities, zero (\<open>+0\<close> and \<open>-0\<close> print and compare
  alike), or a sign with the integers \<open>s\<close> and \<open>n\<close> of the shortest decimal that denotes
  the number: with \<open>k\<close> the number of digits of \<open>s\<close>, the value is \<open>s * 10 ^ (n - k)\<close>
  and \<open>s\<close> does not end in 0. So 7 is \<open>Decimal False 7 1\<close>, 7.9 is
  \<open>Decimal False 79 1\<close>, 1000 is \<open>Decimal False 1 4\<close> and 7e21 is \<open>Decimal False 7 22\<close>.
  Every double has one such form; a value of the type that is not the form of a double
  stands for no number.
\<close>

datatype number = NotANumber | PlusInfinity | MinusInfinity | Zero | Decimal bool nat int

text \<open>
  \<open>Number::toString\<close> with radix 10 for the digits \<open>s\<close> and the exponent \<open>n\<close>: plain
  digits with zeros appended, or with a decimal point, or with leading zeros, when \<open>n\<close> is
  from \<open>-5\<close> to 21, and the exponent form otherwise.
\<close>

definition number_digits :: "nat \<Rightarrow> int \<Rightarrow> string" where
  "number_digits s n =
     (let ds = show_nat s; k = int (length ds)
      in if - 6 < n \<and> n \<le> 21 then
           (if k \<le> n then ds @ replicate (nat (n - k)) CHR ''0''
            else if 0 < n then take (nat n) ds @ ''.'' @ drop (nat n) ds
            else ''0.'' @ replicate (nat (- n)) CHR ''0'' @ ds)
         else
           (let e = show_nat (nat \<bar>n - 1\<bar>);
                c = (if n - 1 < 0 then CHR ''-'' else CHR ''+'')
            in if k = 1 then ds @ ''e'' @ [c] @ e
               else take 1 ds @ ''.'' @ drop 1 ds @ ''e'' @ [c] @ e))"

fun number_toString :: "number \<Rightarrow> string" where
  "number_toString NotANumber = ''NaN''"
| "number_toString PlusInfinity = ''Infinity''"
| "number_toString MinusInfinity = ''-Infinity''"
| "number_toString Zero = ''0''"
| "number_toString (Decimal neg s n) = (if neg then ''-'' else []) @ number_digits s n"

text \<open>
  The number that is the integer \<open>m\<close>: its digits without the zeros at the end, and the
  number of its digits. This is the form of the double \<open>m\<close> when \<open>m\<close> is below \<open>2 ^ 53\<close>
  in magnitude.
\<close>

fun strip0 :: "nat \<Rightarrow> nat" where
  "strip0 n = (if n \<noteq> 0 \<and> n mod 10 = 0 then strip0 (n div 10) else n)"

declare strip0.simps [simp del]

definition number_of_int :: "int \<Rightarrow> number" where
  "number_of_int m =
     (if m = 0 then Zero
      else Decimal (m < 0) (strip0 (nat \<bar>m\<bar>)) (int (length (show_nat (nat \<bar>m\<bar>)))))"

subsection \<open>Values\<close>

text \<open>
  The values a client can send, and the server can send back: \<open>undefined\<close>, \<open>null\<close>, a
  boolean, a number, a string, or an object or array, which is given by the string that
  \<open>ToString\<close> makes of it. \<open>JNum m\<close> is the number that is the integer \<open>m\<close>.
\<close>

datatype jsval = JUndefined | JNull | JBool bool | JNumber number | JStr string | JObject string

definition JNum :: "int \<Rightarrow> jsval" where
  "JNum m = JNumber (number_of_int m)"

text \<open>\<open>ToString\<close> of a value, as \<open>parseInt\<close> applies it.\<close>

fun toString :: "jsval \<Rightarrow> string" where
  "toString JUndefined = ''undefined''"
| "toString JNull = ''null''"
| "toString (JBool b) = (if b then ''true'' else ''false'')"
| "toString (JNumber x) = number_toString x"
| "toString (JStr s) = s"
| "toString (JObject s) = s"

text \<open>A value in a boolean position (\<open>playerName || ...\<close>).\<close>

fun truthy :: "jsval \<Rightarrow> bool" where
  "truthy JUndefined = False"
| "truthy JNull = False"
| "truthy (JBool b) = b"
| "truthy (JNumber x) = (x \<noteq> Zero \<and> x \<noteq> NotANumber)"
| "truthy (JStr s) = (s \<noteq> [])"
| "truthy (JObject s) = True"

text \<open>\<open>s.padStart(n, c)\<close> with a one-character filler, and \<open>s.slice(0, n)\<close>.\<close>

definition padStart :: "nat \<Rightarrow> char \<Rightarrow> string \<Rightarrow> string" where
  "padStart n c s = replicate (n - length s) c @ s"

definition slice0 :: "nat \<Rightarrow> string \<Rightarrow> string" where
  "slice0 n s = take n s"

text \<open>
  The remainder operator \<open>%\<close> takes the sign of the dividend; \<open>Math.floor(a / b)\<close> on
  integers is the floor division of HOL.
\<close>

definition js_rem :: "int \<Rightarrow> int \<Rightarrow> int" where
  "js_rem a b = sgn a * (\<bar>a\<bar> mod \<bar>b\<bar>)"

text \<open>An array read: \<open>undefined\<close> out of range.\<close>

definition js_nth :: "'a list \<Rightarrow> nat \<Rightarrow> 'a option" where
  "js_nth xs i = (if i < length xs then Some (xs ! i) else None)"

subsection \<open>parseInt with radix 10\<close>

text \<open>
  \<open>parseInt(v, 10)\<close>: convert to a string, skip leading white space, read an optional
  sign, then the longest prefix of decimal digits; no digit at all gives \<open>NaN\<close>, which is
  \<open>None\<close> here. Whatever follows the digits is ignored. Only the ASCII white space
  characters are modelled. The result is the integer that the digits denote; the code
  gets the double nearest to it, which is the same integer below \<open>2 ^ 53\<close> in magnitude
  and is not below \<open>2 ^ 53\<close> in magnitude otherwise, so both compare alike with the answer
  of a question.
\<close>

definition isWhiteSpace :: "char \<Rightarrow> bool" where
  "isWhiteSpace c = (c \<in> set [CHR 0x09, CHR 0x0A, CHR 0x0B, CHR 0x0C, CHR 0x0D, CHR 0x20])"

definition isDigit :: "char \<Rightarrow> bool" where
  "isDigit c = (c \<in> set ''0123456789'')"

definition digit_val :: "char \<Rightarrow> nat" where
  "digit_val c = of_char c - 48"

definition digits_val :: "string \<Rightarrow> nat" where
  "digits_val ds = foldl (\<lambda>acc c. 10 * acc + digit_val c) 0 ds"

definition parseInt10 :: "string \<Rightarrow> int option" where
  "parseInt10 inputString =
     (let S = dropWhile isWhiteSpace inputString;
          sign = (case S of c # _ \<Rightarrow> if c = CHR ''-'' then - 1 else 1 | [] \<Rightarrow> (1::int));
          S' = (case S of c # r \<Rightarrow> if c = CHR ''-'' \<or> c = CHR ''+'' then r else S | [] \<Rightarrow> S);
          Z = takeWhile isDigit S'
      in if Z = [] then None else Some (sign * int (digits_val Z)))"

definition parseInt :: "jsval \<Rightarrow> int option" where
  "parseInt v = parseInt10 (toString v)"

section \<open>Time formatting\<close>

text \<open>\<open>formatTime(ms)\<close>, lines 52 to 58.\<close>

definition formatTime :: "int \<Rightarrow> string" where
  "formatTime ms =
     (let totalSeconds = ms div 1000;
          minutes = totalSeconds div 60;
          seconds = js_rem totalSeconds 60;
          milliseconds = js_rem ms 1000
      in padStart 2 CHR ''0'' (show_int minutes) @ '':''
         @ padStart 2 CHR ''0'' (show_int seconds) @ ''.''
         @ padStart 2 CHR ''0'' (slice0 2 (show_int milliseconds)))"

text \<open>
  The format as the specification words it: minutes, seconds and the two most
  significant sub-second digits, that is the hundredths \<open>(ms mod 1000) div 10\<close>, each
  padded to two digits.
\<close>

definition formatTime_spec :: "nat \<Rightarrow> string" where
  "formatTime_spec ms =
     padStart 2 CHR ''0'' (show_nat (ms div 60000)) @ '':''
     @ padStart 2 CHR ''0'' (show_nat ((ms div 1000) mod 60)) @ ''.''
     @ padStart 2 CHR ''0'' (show_nat ((ms mod 1000) div 10))"

section \<open>Questions and players\<close>

text \<open>
  A question object, as \<open>generateQuestionSet\<close> pushes it (lines 39 to 44). The field
  \<open>id\<close> is \<open>qid\<close> and \<open>text\<close> is \<open>qtext\<close> here.
\<close>

record question =
  qid :: int
  qtext :: string
  answer :: int
  points :: int

text \<open>
  The own properties of a question object in creation order: what the object spread
  \<open>{...question}\<close> copies.
\<close>

definition question_props :: "question \<Rightarrow> (string \<times> jsval) list" where
  "question_props q =
     [(''id'', JNum (qid q)), (''text'', JStr (qtext q)),
      (''answer'', JNum (answer q)), (''points'', JNum (points q))]"

text \<open>Spreading \<open>undefined\<close> copies nothing.\<close>

definition spread :: "question option \<Rightarrow> (string \<times> jsval) list" where
  "spread qo = (case qo of None \<Rightarrow> [] | Some q \<Rightarrow> question_props q)"

text \<open>
  One iteration of the loop of \<open>generateQuestionSet\<close> reads the clock once and draws
  three random numbers. They are inputs of the model: \<open>dNow\<close> is \<open>Date.now()\<close>, and
  \<open>dA\<close>, \<open>dB\<close>, \<open>dX\<close> are the values of \<open>Math.floor(Math.random() * k)\<close>, below 5,
  10 and 10.
\<close>

record draw =
  dNow :: int
  dA :: nat
  dB :: nat
  dX :: nat

definition makeQuestion :: "nat \<Rightarrow> draw \<Rightarrow> question" where
  "makeQuestion i d =
     (let uniqueId = dNow d + int i;
          A = int (dA d) + 1;
          B = int (dB d) + 1;
          X = int (dX d) + 1;
          C = A * X + B;
          text = (if A = 1 then ''X + '' @ show_int B @ '' = '' @ show_int C
                  else show_int A @ ''X + '' @ show_int B @ '' = '' @ show_int C)
      in \<lparr>qid = uniqueId, qtext = text, answer = X, points = 10\<rparr>)"

definition generateQuestionSet :: "(nat \<Rightarrow> draw) \<Rightarrow> question list" where
  "generateQuestionSet draws = map (\<lambda>i. makeQuestion i (draws i)) [0..<MAX_QUESTIONS]"

datatype status = InProgress | Finished

text \<open>
  A player object (lines 210 to 220, and line 74 for \<open>currentQuestionStartTime\<close>). The
  field \<open>id\<close> is \<open>pid\<close>; \<open>timer\<close> holds the handle of the interval, or \<open>null\<close>.
\<close>

record player =
  pid :: string
  name :: jsval
  score :: int
  questionIndex :: nat
  questionSet :: "question list"
  gameStartTime :: int
  totalTimeMs :: int
  timer :: "nat option"
  status :: status
  currentQuestionStartTime :: "int option"

section \<open>Array.prototype.sort with a comparator\<close>

text \<open>
  \<open>xs.sort(cmp)\<close> is stable, and for a comparator that is a total preorder its result is
  the one stable arrangement of \<open>xs\<close> in which no element is followed by one that the
  comparator puts before it. It is modelled as insertion from the right: an element goes
  in front of the first one it does not have to follow.
\<close>

fun insert_by :: "('a \<Rightarrow> 'a \<Rightarrow> int) \<Rightarrow> 'a \<Rightarrow> 'a list \<Rightarrow> 'a list" where
  "insert_by cmp x [] = [x]"
| "insert_by cmp x (y # ys) = (if cmp x y \<le> 0 then x # y # ys else y # insert_by cmp x ys)"

definition js_sort :: "('a \<Rightarrow> 'a \<Rightarrow> int) \<Rightarrow> 'a list \<Rightarrow> 'a list" where
  "js_sort cmp xs = foldr (insert_by cmp) xs []"

section \<open>Leaderboard and winners over a list of players\<close>

text \<open>The comparator of \<open>checkAndNotifyWinners\<close>, lines 143 to 148.\<close>

definition winnersCompare :: "player \<Rightarrow> player \<Rightarrow> int" where
  "winnersCompare a b =
     (if score b \<noteq> score a then score b - score a
      else totalTimeMs a - totalTimeMs b)"

text \<open>The comparator of \<open>broadcastLeaderboard\<close>, lines 170 to 182.\<close>

definition leaderboardCompare :: "player \<Rightarrow> player \<Rightarrow> int" where
  "leaderboardCompare a b =
     (if status a = Finished \<and> status b \<noteq> Finished then - 1
      else if status a \<noteq> Finished \<and> status b = Finished then 1
      else if status a = Finished \<and> status b = Finished then
        (if score b \<noteq> score a then score b - score a
         else totalTimeMs a - totalTimeMs b)
      else score b - score a)"

text \<open>An entry of the \<open>winnerNotification\<close> array (lines 150 to 154).\<close>

record winner =
  w_name :: jsval
  w_score :: int
  w_time :: string

definition winnerEntry :: "player \<Rightarrow> winner" where
  "winnerEntry p = \<lparr>w_name = name p, w_score = score p, w_time = formatTime (totalTimeMs p)\<rparr>"

text \<open>The players behind the array: \<open>.filter(...).sort(...).slice(0, 3)\<close>.\<close>

definition topFinished :: "player list \<Rightarrow> player list" where
  "topFinished ps = take 3 (js_sort winnersCompare (filter (\<lambda>p. status p = Finished) ps))"

definition finishedPlayers :: "player list \<Rightarrow> winner list" where
  "finishedPlayers ps = map winnerEntry (topFinished ps)"

text \<open>
  An entry of the \<open>updateLeaderboard\<close> array (lines 183 to 189); its \<open>totalTimeMs\<close> is
  \<open>Infinity\<close> for a player still playing.
\<close>

datatype jstime = Millis int | Infinity

record lb_entry =
  lb_id :: string
  lb_name :: jsval
  lb_score :: int
  lb_status :: string
  lb_totalTimeMs :: jstime

definition leaderboardEntry :: "player \<Rightarrow> lb_entry" where
  "leaderboardEntry p =
     \<lparr>lb_id = pid p, lb_name = name p, lb_score = score p,
      lb_status = (if status p = Finished then ''Finished ('' @ formatTime (totalTimeMs p) @ '')''
                   else ''Q'' @ show_int (int (questionIndex p) + 1) @ ''/''
                        @ show_int (int MAX_QUESTIONS)),
      lb_totalTimeMs = (if status p = Finished then Millis (totalTimeMs p) else Infinity)\<rparr>"

definition rankPlayers :: "player list \<Rightarrow> player list" where
  "rankPlayers ps = js_sort leaderboardCompare ps"

definition sortedPlayers :: "player list \<Rightarrow> lb_entry list" where
  "sortedPlayers ps = map leaderboardEntry (rankPlayers ps)"

text \<open>
  The order of the leaderboard as the specification words it: a finished player before
  one still playing; two finished players by higher score, then by shorter time; two
  players still playing by higher score.
\<close>

definition ranks_before :: "player \<Rightarrow> player \<Rightarrow> bool" where
  "ranks_before a b =
     (status a = Finished \<and> status b = InProgress
      \<or> status a = Finished \<and> status b = Finished
          \<and> (score b < score a \<or> score a = score b \<and> totalTimeMs a \<le> totalTimeMs b)
      \<or> status a = InProgress \<and> status b = InProgress \<and> score b \<le> score a)"

text \<open>The keys of that order: two players with the same keys are tied.\<close>

definition rank_key :: "player \<Rightarrow> status \<times> int \<times> int" where
  "rank_key p = (status p, score p, if status p = Finished then totalTimeMs p else 0)"

text \<open>The order of the winners: higher score, then shorter time.\<close>

definition wins_before :: "player \<Rightarrow> player \<Rightarrow> bool" where
  "wins_before a b =
     (score b < score a \<or> score a = score b \<and> totalTimeMs a \<le> totalTimeMs b)"

section \<open>The server state\<close>

text \<open>
  Events leave the server through \<open>socket.emit\<close> (to one socket), \<open>io.to(id).emit\<close> (to
  the room of one socket) and \<open>io.emit\<close> (to every socket). The model logs each call with
  its target and its payload.
\<close>

datatype target = ToSocket string | ToRoom string | ToAll

datatype event =
    NewQuestion "(string \<times> jsval) list"
  | UpdateTimer int
  | AnswerFeedback bool "string option" jsval
  | GameOver int string
  | UpdateLeaderboard "lb_entry list"
  | PlayerCount nat
  | WinnerNotification "winner list"

text \<open>
  The closure that \<open>startQuestionTimer\<close> hands to \<open>setInterval\<close> captures the player
  object, the socket of \<open>playerId\<close> and the counter \<open>timeLeft\<close>.
\<close>

record interval =
  ivPlayer :: nat
  ivPlayerId :: string
  timeLeft :: int

text \<open>
  Player objects live in a store and are named by their address, since the registry
  \<open>activePlayers\<close> and the interval closures can hold the same object, and \<open>joinGame\<close>
  can replace the object of a socket while a closure still holds the old one.
  \<open>activePlayers\<close> keeps its keys in insertion order, the order of \<open>Object.values\<close>
  for keys that are not array indices, as socket ids are.
  \<open>intervals\<close> are the live intervals by handle; \<open>timeouts\<close> are the pending
  \<open>setTimeout\<close> callbacks, each of which is \<open>moveToNextQuestion\<close> of a player id, with
  its delay; \<open>sockets\<close> are the connected sockets.
\<close>

record state =
  heap :: "nat \<Rightarrow> player"
  nextRef :: nat
  activePlayers :: "(string \<times> nat) list"
  sockets :: "string list"
  intervals :: "(nat \<times> interval) list"
  nextHandle :: nat
  timeouts :: "(nat \<times> string) list"
  emitted :: "(target \<times> event) list"

text \<open>The content of a store cell that holds no object yet; nothing refers to it.\<close>

definition unallocated :: player where
  "unallocated =
     \<lparr>pid = [], name = JUndefined, score = 0, questionIndex = 0, questionSet = [],
      gameStartTime = 0, totalTimeMs = 0, timer = None, status = InProgress,
      currentQuestionStartTime = None\<rparr>"

definition initial :: state where
  "initial =
     \<lparr>heap = (\<lambda>_. unallocated), nextRef = 0, activePlayers = [], sockets = [],
      intervals = [], nextHandle = 0, timeouts = [], emitted = []\<rparr>"

definition emit :: "target \<Rightarrow> event \<Rightarrow> state \<Rightarrow> state" where
  "emit t e s = s\<lparr>emitted := emitted s @ [(t, e)]\<rparr>"

definition setTimeout :: "nat \<Rightarrow> string \<Rightarrow> state \<Rightarrow> state" where
  "setTimeout ms playerId s = s\<lparr>timeouts := timeouts s @ [(ms, playerId)]\<rparr>"

definition clearInterval :: "nat \<Rightarrow> state \<Rightarrow> state" where
  "clearInterval h s = s\<lparr>intervals := filter (\<lambda>e. fst e \<noteq> h) (intervals s)\<rparr>"

definition upd_player :: "nat \<Rightarrow> (player \<Rightarrow> player) \<Rightarrow> state \<Rightarrow> state" where
  "upd_player r f s = s\<lparr>heap := (heap s)(r := f (heap s r))\<rparr>"

text \<open>\<open>activePlayers[k] = r\<close>: an existing key keeps its place, a new one goes last.\<close>

fun reg_set :: "string \<Rightarrow> nat \<Rightarrow> (string \<times> nat) list \<Rightarrow> (string \<times> nat) list" where
  "reg_set k r [] = [(k, r)]"
| "reg_set k r (e # es) = (if fst e = k then (k, r) # es else e # reg_set k r es)"

text \<open>\<open>Object.values(activePlayers)\<close>.\<close>

definition players :: "state \<Rightarrow> player list" where
  "players s = map (\<lambda>e. heap s (snd e)) (activePlayers s)"

section \<open>The functions of the server\<close>

text \<open>\<open>broadcastLeaderboard\<close>, lines 166 to 193.\<close>

definition broadcastLeaderboard :: "state \<Rightarrow> state" where
  "broadcastLeaderboard s =
     (let sorted = sortedPlayers (players s)
      in emit ToAll (PlayerCount (length sorted)) (emit ToAll (UpdateLeaderboard sorted) s))"

text \<open>\<open>checkAndNotifyWinners\<close>, lines 140 to 159.\<close>

definition checkAndNotifyWinners :: "state \<Rightarrow> state" where
  "checkAndNotifyWinners s =
     (let winners = finishedPlayers (players s)
      in if length winners > 0 then emit ToAll (WinnerNotification winners) s else s)"

text \<open>
  \<open>startQuestionTimer\<close>, lines 63 to 99, up to the call of \<open>setInterval\<close>; \<open>now\<close> is the
  value of \<open>Date.now()\<close>. The old interval is cleared, but its handle stays in the field
  until the new one is stored.
\<close>

definition startQuestionTimer :: "string \<Rightarrow> int \<Rightarrow> state \<Rightarrow> state" where
  "startQuestionTimer playerId now s =
     (case map_of (activePlayers s) playerId of
        None \<Rightarrow> s
      | Some r \<Rightarrow>
          if status (heap s r) = Finished then s
          else
            let s1 = (case timer (heap s r) of None \<Rightarrow> s | Some h \<Rightarrow> clearInterval h s)
            in if playerId \<in> set (sockets s1) then
                 let s2 = upd_player r (\<lambda>p. p\<lparr>currentQuestionStartTime := Some now\<rparr>) s1;
                     s3 = emit (ToSocket playerId) (UpdateTimer TIME_PER_QUESTION_SECONDS) s2;
                     h = nextHandle s3;
                     s4 = s3\<lparr>intervals := intervals s3 @
                               [(h, \<lparr>ivPlayer = r, ivPlayerId = playerId,
                                     timeLeft = TIME_PER_QUESTION_SECONDS\<rparr>)],
                             nextHandle := h + 1\<rparr>
                 in upd_player r (\<lambda>p. p\<lparr>timer := Some h\<rparr>) s4
               else s1)"

text \<open>
  \<open>moveToNextQuestion\<close>, lines 104 to 135; \<open>now\<close> is the value of the one call of
  \<open>Date.now()\<close> that either branch makes.
\<close>

definition moveToNextQuestion :: "string \<Rightarrow> int \<Rightarrow> state \<Rightarrow> state" where
  "moveToNextQuestion playerId now s =
     (case map_of (activePlayers s) playerId of
        None \<Rightarrow> s
      | Some r \<Rightarrow>
          let s1 = (case timer (heap s r) of
                      None \<Rightarrow> s
                    | Some h \<Rightarrow> upd_player r (\<lambda>p. p\<lparr>timer := None\<rparr>) (clearInterval h s));
              s2 = upd_player r (\<lambda>p. p\<lparr>questionIndex := questionIndex p + 1\<rparr>) s1
          in if questionIndex (heap s2 r) < MAX_QUESTIONS then
               let nextQuestion = js_nth (questionSet (heap s2 r)) (questionIndex (heap s2 r));
                   s3 = emit (ToRoom playerId)
                          (NewQuestion (spread nextQuestion @
                             [(''index'', JNum (int (questionIndex (heap s2 r)) + 1)),
                              (''total'', JNum (int MAX_QUESTIONS))])) s2
               in broadcastLeaderboard (startQuestionTimer playerId now s3)
             else
               let s3 = upd_player r (\<lambda>p. p\<lparr>status := Finished\<rparr>) s2;
                   s4 = upd_player r (\<lambda>p. p\<lparr>totalTimeMs := now - gameStartTime p\<rparr>) s3;
                   s5 = emit (ToRoom playerId)
                          (GameOver (score (heap s4 r)) (formatTime (totalTimeMs (heap s4 r)))) s4
               in checkAndNotifyWinners (broadcastLeaderboard s5))"

text \<open>
  The callback of the interval with handle \<open>h\<close> (lines 79 to 98), run once. It reads a
  property of \<open>currentQ\<close>, which throws a \<open>TypeError\<close> that nothing catches when the
  player object has no question at its index.
\<close>

datatype error = TypeError

definition tick :: "nat \<Rightarrow> state \<Rightarrow> error + state" where
  "tick h s =
     (case map_of (intervals s) h of
        None \<Rightarrow> Inr s
      | Some iv \<Rightarrow>
          let left = timeLeft iv - 1;
              s1 = s\<lparr>intervals := map (\<lambda>e. if fst e = h then (h, iv\<lparr>timeLeft := left\<rparr>) else e)
                                      (intervals s)\<rparr>;
              s2 = emit (ToSocket (ivPlayerId iv)) (UpdateTimer left) s1
          in if left \<le> 0 then
               let r = ivPlayer iv;
                   s3 = (case timer (heap s2 r) of None \<Rightarrow> s2 | Some h' \<Rightarrow> clearInterval h' s2);
                   s4 = upd_player r (\<lambda>p. p\<lparr>timer := None\<rparr>) s3
               in (case js_nth (questionSet (heap s4 r)) (questionIndex (heap s4 r)) of
                     None \<Rightarrow> Inl TypeError
                   | Some currentQ \<Rightarrow>
                       Inr (setTimeout 2000 (ivPlayerId iv)
                              (emit (ToSocket (ivPlayerId iv))
                                 (AnswerFeedback False (Some ''Time up!'') (JNum (answer currentQ)))
                                 s4)))
             else Inr s2)"

text \<open>
  The handler of \<open>joinGame\<close>, lines 205 to 233. \<open>draws\<close> feeds \<open>generateQuestionSet\<close>,
  \<open>rnd\<close> is \<open>Math.floor(Math.random() * 1000)\<close>, \<open>now\<close> the clock read for
  \<open>gameStartTime\<close> and \<open>tnow\<close> the one read by \<open>startQuestionTimer\<close>.
\<close>

definition joinGame ::
  "string \<Rightarrow> jsval \<Rightarrow> (nat \<Rightarrow> draw) \<Rightarrow> nat \<Rightarrow> int \<Rightarrow> int \<Rightarrow> state \<Rightarrow> state" where
  "joinGame sid playerName draws rnd now tnow s =
     (let newQuestionSet = generateQuestionSet draws;
          firstQuestion = js_nth newQuestionSet 0;
          r = nextRef s;
          s1 = s\<lparr>heap := (heap s)(r :=
                    \<lparr>pid = sid,
                     name = (if truthy playerName then playerName
                             else JStr (''Player '' @ show_nat rnd)),
                     score = 0, questionIndex = 0, questionSet = newQuestionSet,
                     gameStartTime = now, totalTimeMs = 0, timer = None,
                     status = InProgress, currentQuestionStartTime = None\<rparr>),
                 nextRef := r + 1,
                 activePlayers := reg_set sid r (activePlayers s)\<rparr>;
          s2 = emit (ToSocket sid)
                 (NewQuestion (spread firstQuestion @
                    [(''index'', JNum 1), (''total'', JNum (int MAX_QUESTIONS))])) s1
      in checkAndNotifyWinners (broadcastLeaderboard (startQuestionTimer sid tnow s2)))"

text \<open>
  The payload of \<open>submitAnswer\<close>: \<open>None\<close> is a payload without properties to read
  (\<open>null\<close> or \<open>undefined\<close>), on which \<open>data.answer\<close> throws; a property that is
  missing reads as \<open>undefined\<close>. The field \<open>answer\<close> is \<open>dataAnswer\<close> here.
\<close>

record submission =
  questionId :: jsval
  dataAnswer :: jsval

text \<open>
  The \<open>try\<close> block of the handler, lines 244 to 283, for the player object at \<open>r\<close>.
  Every place that can throw (\<open>data.answer\<close> at line 247, \<open>currentQ.answer\<close> at line 252,
  \<open>currentQ.id\<close> at line 258) comes before the first effect, so a throw carries no state.
\<close>

definition submitAnswer_try :: "string \<Rightarrow> nat \<Rightarrow> submission option \<Rightarrow> state \<Rightarrow> error + state" where
  "submitAnswer_try sid r data s =
     (let player = heap s r;
          currentQ = js_nth (questionSet player) (questionIndex player)
      in case data of
           None \<Rightarrow> Inl TypeError
         | Some d \<Rightarrow>
             (case parseInt (dataAnswer d) of
                None \<Rightarrow>
                  (case currentQ of
                     None \<Rightarrow> Inl TypeError
                   | Some q \<Rightarrow>
                       Inr (setTimeout 2000 sid
                              (emit (ToSocket sid)
                                 (AnswerFeedback False (Some ''Invalid Input.'') (JNum (answer q)))
                                 s)))
              | Some submittedAnswerInt \<Rightarrow>
                  (case currentQ of
                     None \<Rightarrow> Inl TypeError
                   | Some q \<Rightarrow>
                       let isCorrect = (questionId d = JNum (qid q)
                                        \<and> submittedAnswerInt = answer q);
                           s1 = (case timer player of
                                   None \<Rightarrow> s
                                 | Some h \<Rightarrow>
                                     upd_player r (\<lambda>p. p\<lparr>timer := None\<rparr>) (clearInterval h s))
                       in if isCorrect then
                            Inr (setTimeout 1000 sid
                                   (emit (ToSocket sid)
                                      (AnswerFeedback True None (JNum (answer q)))
                                      (upd_player r (\<lambda>p. p\<lparr>score := score p + points q\<rparr>) s1)))
                          else
                            Inr (setTimeout 2000 sid
                                   (emit (ToSocket sid)
                                      (AnswerFeedback False (Some ''Incorrect.'') (JNum (answer q)))
                                      s1)))))"

text \<open>The handler of \<open>submitAnswer\<close>, lines 236 to 290, with its \<open>catch\<close> block.\<close>

definition submitAnswer :: "string \<Rightarrow> submission option \<Rightarrow> state \<Rightarrow> state" where
  "submitAnswer sid data s =
     (case map_of (activePlayers s) sid of
        None \<Rightarrow> s
      | Some r \<Rightarrow>
          if status (heap s r) = Finished then s
          else
            (case submitAnswer_try sid r data s of
               Inr s' \<Rightarrow> s'
             | Inl TypeError \<Rightarrow>
                 setTimeout 3000 sid
                   (emit (ToSocket sid)
                      (AnswerFeedback False (Some ''Server Error.'')
                         (case js_nth (questionSet (heap s r)) (questionIndex (heap s r)) of
                            None \<Rightarrow> JUndefined
                          | Some q \<Rightarrow> JNum (answer q)))
                      s)))"

text \<open>
  The handler of \<open>disconnect\<close>, lines 293 to 303; the socket has left the connected ones
  when it runs.
\<close>

definition disconnect :: "string \<Rightarrow> state \<Rightarrow> state" where
  "disconnect sid s =
     (let s0 = s\<lparr>sockets := removeAll sid (sockets s)\<rparr>;
          s1 = (case map_of (activePlayers s0) sid of
                  None \<Rightarrow> s0
                | Some r \<Rightarrow> (case timer (heap s0 r) of None \<Rightarrow> s0 | Some h \<Rightarrow> clearInterval h s0));
          s2 = s1\<lparr>activePlayers := filter (\<lambda>e. fst e \<noteq> sid) (activePlayers s1)\<rparr>
      in checkAndNotifyWinners (broadcastLeaderboard s2))"

text \<open>The handler of \<open>connection\<close>, lines 200 to 202.\<close>

definition connection :: "string \<Rightarrow> state \<Rightarrow> state" where
  "connection sid s = broadcastLeaderboard (s\<lparr>sockets := sockets s @ [sid]\<rparr>)"

text \<open>
  The pending timeout at position \<open>k\<close> fires: it leaves the pending ones and runs
  \<open>moveToNextQuestion\<close> of its player id.
\<close>

definition fireTimeout :: "nat \<Rightarrow> int \<Rightarrow> state \<Rightarrow> state" where
  "fireTimeout k now s =
     (case js_nth (timeouts s) k of
        None \<Rightarrow> s
      | Some t \<Rightarrow>
          moveToNextQuestion (snd t) now
            (s\<lparr>timeouts := take k (timeouts s) @ drop (Suc k) (timeouts s)\<rparr>))"

section \<open>The event loop\<close>

text \<open>
  The server runs one handler at a time, to its end. What happens to it is a sequence of
  inputs: socket events and timers that fire.
\<close>

datatype input =
    Connection string
  | JoinGame string jsval "nat \<Rightarrow> draw" nat int int
  | SubmitAnswer string "submission option"
  | Disconnect string
  | Tick nat
  | Timeout nat int

fun step :: "input \<Rightarrow> state \<Rightarrow> error + state" where
  "step (Connection sid) s = Inr (connection sid s)"
| "step (JoinGame sid playerName draws rnd now tnow) s =
     Inr (joinGame sid playerName draws rnd now tnow s)"
| "step (SubmitAnswer sid data) s = Inr (submitAnswer sid data s)"
| "step (Disconnect sid) s = Inr (disconnect sid s)"
| "step (Tick h) s = tick h s"
| "step (Timeout k now) s = Inr (fireTimeout k now s)"

fun run :: "input list \<Rightarrow> state \<Rightarrow> error + state" where
  "run [] s = Inr s"
| "run (i # is) s = (case step i s of Inl e \<Rightarrow> Inl e | Inr s' \<Rightarrow> run is s')"

section \<open>Example runs\<close>

text \<open>
  A question set in which every equation is \<open>X + 3 = 10\<close>, with answer 7 and the ids
  1000 to 1009, and a player Alice on socket \<open>a\<close> who has just joined.
\<close>

definition sevens :: "nat \<Rightarrow> draw" where
  "sevens i = \<lparr>dNow = 1000, dA = 0, dB = 2, dX = 6\<rparr>"

definition alice_joins :: "input list" where
  "alice_joins = [Connection ''a'', JoinGame ''a'' (JStr ''Alice'') sevens 0 1000 1000]"

definition joined :: state where
  "joined = joinGame ''a'' (JStr ''Alice'') sevens 0 1000 1000 (connection ''a'' initial)"

text \<open>The right answer to question \<open>i\<close> of that set, sent as a string.\<close>

definition answer_at :: "nat \<Rightarrow> submission option" where
  "answer_at i = Some \<lparr>questionId = JNum (1000 + int i), dataAnswer = JStr ''7''\<rparr>"

text \<open>A submission that is not a number.\<close>

definition not_a_number :: "submission option" where
  "not_a_number = Some \<lparr>questionId = JNum 1000, dataAnswer = JStr ''abc''\<rparr>"

text \<open>
  One round: the right answer to question \<open>i\<close>, then the advance it scheduled fires.
\<close>

definition round_trace :: "nat \<Rightarrow> input list" where
  "round_trace i = [SubmitAnswer ''a'' (answer_at i), Timeout 0 (3000 + 2000 * int i)]"

text \<open>
  Alice answers nine questions, then sends the answer to the tenth twice before the first
  advance fires, as a double click does. Both advances are pending when the first fires.
\<close>

definition nine_rounds :: "input list" where
  "nine_rounds = alice_joins @ concat (map round_trace [0..<9])"

definition double_submit :: "input list" where
  "double_submit =
     nine_rounds @ [SubmitAnswer ''a'' (answer_at 9), SubmitAnswer ''a'' (answer_at 9),
                    Timeout 0 21000]"

text \<open>A player who has finished with a given score and time, and one still playing.\<close>

definition finisher :: "string \<Rightarrow> int \<Rightarrow> int \<Rightarrow> player" where
  "finisher n sc t =
     unallocated\<lparr>pid := n, name := JStr n, score := sc, questionIndex := 10,
                 totalTimeMs := t, status := Finished\<rparr>"

definition newcomer :: "string \<Rightarrow> player" where
  "newcomer n = unallocated\<lparr>pid := n, name := JStr n\<rparr>"

text \<open>
  A registry of three finished players and one still playing, in an order that is not the
  order of the ranking; and the same with a fourth finished player in front.
\<close>

definition podium :: state where
  "podium =
     initial\<lparr>heap := (\<lambda>r. if r = 0 then finisher ''c'' 90 4000
                         else if r = 1 then newcomer ''n''
                         else if r = 2 then finisher ''b'' 100 6000
                         else if r = 3 then finisher ''a'' 100 5000
                         else finisher ''d'' 80 3000),
             nextRef := 4,
             activePlayers := [(''c'', 0), (''n'', 1), (''b'', 2), (''a'', 3)]\<rparr>"

definition podium_of_four :: state where
  "podium_of_four = podium\<lparr>nextRef := 5, activePlayers := (''d'', 4) # activePlayers podium\<rparr>"

text \<open>
  What a run has made of the session of socket \<open>sid\<close>: its player object is at \<open>r\<close>,
  with index \<open>i\<close>, status, score, question set and start time, and \<open>pending\<close> are the
  player ids of the pending timeouts.
\<close>

definition session ::
  "state \<Rightarrow> string \<Rightarrow> nat \<Rightarrow> nat \<Rightarrow> status \<Rightarrow> int \<Rightarrow> question list \<Rightarrow> int \<Rightarrow> string list
   \<Rightarrow> bool" where
  "session s sid r i st sc qs start pending \<longleftrightarrow>
     map_of (activePlayers s) sid = Some r \<and> questionIndex (heap s r) = i
     \<and> status (heap s r) = st \<and> score (heap s r) = sc \<and> questionSet (heap s r) = qs
     \<and> gameStartTime (heap s r) = start \<and> map snd (timeouts s) = pending"

section \<open>Reachable states\<close>

text \<open>The states the server can be in: what a sequence of inputs makes of the initial state.\<close>

inductive reachable :: "state \<Rightarrow> bool" where
  reachable_initial: "reachable initial"
| reachable_step: "reachable s \<Longrightarrow> step i s = Inr s' \<Longrightarrow> reachable s'"

text \<open>
  A player object is well formed when it has its ten questions and, while in progress,
  an index that points at one of them.
\<close>

definition obj_ok :: "player \<Rightarrow> bool" where
  "obj_ok p \<longleftrightarrow>
     length (questionSet p) = MAX_QUESTIONS
     \<and> (status p = InProgress \<longrightarrow> questionIndex p < MAX_QUESTIONS)"

text \<open>
  A state is well formed when every allocated player object is, and the registry holds
  allocated addresses.
\<close>

definition state_ok :: "state \<Rightarrow> bool" where
  "state_ok s \<longleftrightarrow>
     (\<forall>r < nextRef s. obj_ok (heap s r)) \<and> (\<forall>e \<in> set (activePlayers s). snd e < nextRef s)"

section \<open>Evaluation rules\<close>

text \<open>
  \<open>show_nat\<close> is unfolded on numerals only, so that the simplifier stops at a number it
  cannot compute.
\<close>

lemma show_nat_0: "show_nat 0 = ''0''"
  by (simp add: show_nat.simps digit_char_def)

lemma show_nat_1: "show_nat 1 = ''1''" "show_nat (Suc 0) = ''1''"
  by (simp_all add: show_nat.simps digit_char_def)

lemma show_nat_numeral:
  "show_nat (numeral k) =
     (if (numeral k :: nat) < 10 then [digit_char (numeral k)]
      else show_nat (numeral k div 10) @ [digit_char (numeral k)])"
  by (rule show_nat.simps)

lemmas show_nat_eval = show_nat_0 show_nat_1 show_nat_numeral

lemma strip0_0: "strip0 0 = 0"
  by (simp add: strip0.simps)

lemma strip0_1: "strip0 1 = 1" "strip0 (Suc 0) = Suc 0"
  by (simp_all add: strip0.simps)

lemma strip0_numeral:
  "strip0 (numeral k) =
     (if (numeral k :: nat) mod 10 = 0 then strip0 (numeral k div 10) else numeral k)"
  by (simp add: strip0.simps [of "numeral k"])

lemma replicate_numeral: "replicate (numeral k) x = x # replicate (pred_numeral k) x"
  by (simp add: numeral_eq_Suc)

lemmas number_defs =
  JNum_def number_of_int_def number_digits_def strip0_0 strip0_1 strip0_numeral
  replicate_numeral

lemmas format_defs =
  formatTime_def formatTime_spec_def js_rem_def padStart_def slice0_def show_int_def
  show_nat_eval digit_char_def Let_def

lemmas parse_defs =
  parseInt_def parseInt10_def isWhiteSpace_def isDigit_def digits_val_def digit_val_def
  show_int_def show_nat_eval digit_char_def Let_def number_defs

lemmas prim_defs = emit_def setTimeout_def clearInterval_def upd_player_def

lemmas handler_defs =
  joinGame_def connection_def submitAnswer_def submitAnswer_try_def disconnect_def
  fireTimeout_def moveToNextQuestion_def startQuestionTimer_def broadcastLeaderboard_def
  checkAndNotifyWinners_def prim_defs players_def initial_def js_nth_def spread_def
  question_props_def

lemmas data_defs =
  generateQuestionSet_def makeQuestion_def MAX_QUESTIONS_def TIME_PER_QUESTION_SECONDS_def
  sortedPlayers_def rankPlayers_def js_sort_def leaderboardCompare_def leaderboardEntry_def
  finishedPlayers_def topFinished_def winnersCompare_def winnerEntry_def

section \<open>Time formatting: the sub-second digits\<close>

text \<open>
  Between a tenth of a second and a full second past the second, and on the full second,
  the code prints the hundredths; this is where it agrees with the specification.
\<close>

lemma formatTime_1500: "formatTime 61500 = ''01:01.50'' \<and> formatTime_spec 61500 = ''01:01.50''"
  by (simp add: format_defs)

text \<open>
  C8. The specification renders the hundredths of a second, \<open>(ms mod 1000) div 10\<close>, in
  two digits. The code cuts the first two characters of the decimal form of
  \<open>ms mod 1000\<close> before it pads, so a remainder below 100 is printed as it is: 20050 ms
  are rendered \<open>00:20.50\<close> by the code and \<open>00:20.05\<close> by the specification, and the
  code renders 20500 ms the same way as 20050 ms.
\<close>

theorem formatTime_below_100:
  "formatTime 20050 = ''00:20.50'' \<and> formatTime_spec 20050 = ''00:20.05''
   \<and> formatTime 20500 = formatTime 20050"
  by (simp add: format_defs)

section \<open>Sorting with a comparator\<close>

lemma mset_insert_by: "mset (insert_by cmp x xs) = add_mset x (mset xs)"
  by (induction xs) auto

lemma mset_js_sort: "mset (js_sort cmp xs) = mset xs"
  unfolding js_sort_def by (induction xs) (auto simp: mset_insert_by)

lemma set_insert_by: "set (insert_by cmp x xs) = insert x (set xs)"
  by (induction xs) auto

lemma set_js_sort: "set (js_sort cmp xs) = set xs"
  unfolding js_sort_def by (induction xs) (auto simp: set_insert_by)

text \<open>
  A comparator that relates every pair one way or the other and is transitive leaves no
  element in front of one it has to follow.
\<close>

lemma sorted_insert_by:
  assumes total: "\<And>a b. 0 < cmp a b \<Longrightarrow> cmp b a \<le> 0"
      and trans: "\<And>a b c. cmp a b \<le> 0 \<Longrightarrow> cmp b c \<le> 0 \<Longrightarrow> cmp a c \<le> 0"
      and sorted: "sorted_wrt (\<lambda>a b. cmp a b \<le> 0) xs"
  shows "sorted_wrt (\<lambda>a b. cmp a b \<le> 0) (insert_by cmp x xs)"
  using sorted
proof (induction xs)
  case Nil
  show ?case by simp
next
  case (Cons y ys)
  show ?case
  proof (cases "cmp x y \<le> 0")
    case True
    with Cons.prems show ?thesis by (auto intro: trans)
  next
    case False
    then have "cmp y x \<le> 0" using total [of x y] by simp
    with False Cons show ?thesis by (auto simp: set_insert_by)
  qed
qed

lemma sorted_js_sort:
  assumes total: "\<And>a b. 0 < cmp a b \<Longrightarrow> cmp b a \<le> 0"
      and trans: "\<And>a b c. cmp a b \<le> 0 \<Longrightarrow> cmp b c \<le> 0 \<Longrightarrow> cmp a c \<le> 0"
  shows "sorted_wrt (\<lambda>a b. cmp a b \<le> 0) (js_sort cmp xs)"
  unfolding js_sort_def
proof (induction xs)
  case Nil
  show ?case by simp
next
  case (Cons x xs)
  have "sorted_wrt (\<lambda>a b. cmp a b \<le> 0) (insert_by cmp x (foldr (insert_by cmp) xs []))"
    by (rule sorted_insert_by [OF total trans Cons.IH])
  then show ?case by simp
qed

text \<open>Stability: elements that the comparator ties keep the order they came in.\<close>

lemma filter_insert_by:
  assumes tied: "\<And>y. P x \<Longrightarrow> P y \<Longrightarrow> cmp x y \<le> 0"
  shows "filter P (insert_by cmp x xs) = (if P x then x # filter P xs else filter P xs)"
  by (induction xs) (auto dest: tied)

lemma filter_js_sort:
  assumes tied: "\<And>x y. P x \<Longrightarrow> P y \<Longrightarrow> cmp x y \<le> 0"
  shows "filter P (js_sort cmp xs) = filter P xs"
  unfolding js_sort_def
  by (induction xs) (simp_all add: filter_insert_by tied)

section \<open>The leaderboard order\<close>

lemma leaderboardCompare_ranks: "leaderboardCompare a b \<le> 0 \<longleftrightarrow> ranks_before a b"
  by (cases "status a"; cases "status b") (auto simp: leaderboardCompare_def ranks_before_def)

lemma ranks_before_total: "ranks_before a b \<or> ranks_before b a"
  by (cases "status a"; cases "status b") (auto simp: ranks_before_def)

lemma ranks_before_trans: "ranks_before a b \<Longrightarrow> ranks_before b c \<Longrightarrow> ranks_before a c"
  by (cases "status a"; cases "status b"; cases "status c") (auto simp: ranks_before_def)

lemma ranks_before_tied: "rank_key a = rank_key b \<Longrightarrow> ranks_before a b"
  by (cases "status a"; cases "status b") (auto simp: ranks_before_def rank_key_def)

lemma sorted_rankPlayers: "sorted_wrt ranks_before (rankPlayers ps)"
proof -
  have "sorted_wrt (\<lambda>a b. leaderboardCompare a b \<le> 0) (js_sort leaderboardCompare ps)"
  proof (rule sorted_js_sort)
    fix a b assume "0 < leaderboardCompare a b"
    then have "\<not> leaderboardCompare a b \<le> 0" by simp
    then show "leaderboardCompare b a \<le> 0"
      using ranks_before_total [of a b] by (simp add: leaderboardCompare_ranks)
  next
    fix a b c assume "leaderboardCompare a b \<le> 0" "leaderboardCompare b c \<le> 0"
    then show "leaderboardCompare a c \<le> 0"
      using ranks_before_trans [of a b c] by (simp add: leaderboardCompare_ranks)
  qed
  then show ?thesis by (simp add: rankPlayers_def leaderboardCompare_ranks)
qed

lemma stable_rankPlayers:
  "filter (\<lambda>p. rank_key p = k) (rankPlayers ps) = filter (\<lambda>p. rank_key p = k) ps"
  unfolding rankPlayers_def
  by (rule filter_js_sort) (simp add: leaderboardCompare_ranks ranks_before_tied)

lemma emitted_broadcastLeaderboard:
  "emitted (broadcastLeaderboard s) =
     emitted s @ [(ToAll, UpdateLeaderboard (map leaderboardEntry (rankPlayers (players s)))),
                  (ToAll, PlayerCount (length (players s)))]"
  by (simp add: broadcastLeaderboard_def sortedPlayers_def emit_def Let_def rankPlayers_def
        size_mset [symmetric] mset_js_sort del: size_mset)

text \<open>
  C5. \<open>broadcastLeaderboard\<close> sends the players of the registry in the order of
  \<open>rankPlayers\<close>, which is a function of the list of players. The result is a
  rearrangement of the list, in which every player ranks before all those behind: finished
  players come before players still playing, finished ones are ordered by higher score and
  then by shorter time, the others by higher score. Any two players are comparable, and
  players tied on these keys keep the order of the registry.
\<close>

theorem leaderboard_rank_order:
  "emitted (broadcastLeaderboard s) =
     emitted s @ [(ToAll, UpdateLeaderboard (map leaderboardEntry (rankPlayers (players s)))),
                  (ToAll, PlayerCount (length (players s)))]
   \<and> mset (rankPlayers ps) = mset ps
   \<and> sorted_wrt ranks_before (rankPlayers ps)
   \<and> (\<forall>a b. ranks_before a b \<or> ranks_before b a)
   \<and> (\<forall>k. filter (\<lambda>p. rank_key p = k) (rankPlayers ps) = filter (\<lambda>p. rank_key p = k) ps)"
  using emitted_broadcastLeaderboard [of s] sorted_rankPlayers [of ps] ranks_before_total
    stable_rankPlayers [of _ ps]
  by (simp add: rankPlayers_def mset_js_sort)

text \<open>Six players in registry order, and the leaderboard order they get.\<close>

lemma rank_example:
  "rankPlayers [newcomer ''n1'', finisher ''f1'' 90 4000, (newcomer ''n2'')\<lparr>score := 20\<rparr>,
                finisher ''f2'' 100 6000, finisher ''f3'' 100 5000, finisher ''f4'' 90 4000]
   = [finisher ''f3'' 100 5000, finisher ''f2'' 100 6000, finisher ''f1'' 90 4000,
      finisher ''f4'' 90 4000, (newcomer ''n2'')\<lparr>score := 20\<rparr>, newcomer ''n1'']"
  by (simp add: rankPlayers_def js_sort_def leaderboardCompare_def finisher_def newcomer_def
        unallocated_def)

section \<open>The winners\<close>

lemma winnersCompare_wins: "winnersCompare a b \<le> 0 \<longleftrightarrow> wins_before a b"
  by (auto simp: winnersCompare_def wins_before_def)

lemma wins_before_total: "wins_before a b \<or> wins_before b a"
  by (auto simp: wins_before_def)

lemma wins_before_trans: "wins_before a b \<Longrightarrow> wins_before b c \<Longrightarrow> wins_before a c"
  by (auto simp: wins_before_def)

lemma sorted_js_sort_winners: "sorted_wrt wins_before (js_sort winnersCompare ps)"
proof -
  have "sorted_wrt (\<lambda>a b. winnersCompare a b \<le> 0) (js_sort winnersCompare ps)"
  proof (rule sorted_js_sort)
    fix a b assume "0 < winnersCompare a b"
    then have "\<not> winnersCompare a b \<le> 0" by simp
    then show "winnersCompare b a \<le> 0"
      using wins_before_total [of a b] by (simp add: winnersCompare_wins)
  next
    fix a b c assume "winnersCompare a b \<le> 0" "winnersCompare b c \<le> 0"
    then show "winnersCompare a c \<le> 0"
      using wins_before_trans [of a b c] by (simp add: winnersCompare_wins)
  qed
  then show ?thesis by (simp add: winnersCompare_wins)
qed

lemma length_topFinished: "length (topFinished ps) \<le> 3"
  by (simp add: topFinished_def)

lemma set_topFinished: "set (topFinished ps) \<subseteq> {p \<in> set ps. status p = Finished}"
proof -
  have "set (topFinished ps) \<subseteq> set (js_sort winnersCompare (filter (\<lambda>p. status p = Finished) ps))"
    unfolding topFinished_def by (rule set_take_subset)
  then show ?thesis by (auto simp: set_js_sort)
qed

lemma sorted_topFinished: "sorted_wrt wins_before (topFinished ps)"
  unfolding topFinished_def by (rule sorted_wrt_take) (rule sorted_js_sort_winners)

text \<open>
  The scenario of the specification: whatever the order of the registry, and whoever else
  is still playing, three finished players with 100 points in 5000 ms, 100 points in
  6000 ms and 90 points in 4000 ms are the winners in this order.
\<close>

lemma topFinished_three:
  assumes a: "score a = 100" "totalTimeMs a = 5000"
      and b: "score b = 100" "totalTimeMs b = 6000"
      and c: "score c = 90" "totalTimeMs c = 4000"
      and perm: "mset (filter (\<lambda>p. status p = Finished) ps) = mset [a, b, c]"
  shows "topFinished ps = [a, b, c]"
proof -
  let ?R = "js_sort winnersCompare (filter (\<lambda>p. status p = Finished) ps)"
  have m: "mset ?R = mset [a, b, c]" using perm by (simp add: mset_js_sort)
  have srt: "sorted_wrt wins_before ?R" by (rule sorted_js_sort_winners)
  have len: "length ?R = 3" using m by (metis length_Cons list.size(3) size_mset numeral_3_eq_3)
  then obtain x y z where R: "?R = [x, y, z]"
    by (metis (no_types, lifting) length_0_conv length_Suc_conv numeral_3_eq_3)
  have nab: "\<not> wins_before b a" "\<not> wins_before c a" "\<not> wins_before c b"
    using a b c by (simp_all add: wins_before_def)
  have ne: "a \<noteq> b" "a \<noteq> c" "b \<noteq> c" using a b c by auto
  from m R have "mset [x, y, z] = mset [a, b, c]" by simp
  then have "[x, y, z] = [a, b, c]"
    using srt nab ne unfolding R
    by (auto simp: add_eq_conv_ex)
  then show ?thesis by (simp add: topFinished_def R)
qed

lemma length_js_sort: "length (js_sort cmp xs) = length xs"
  by (metis mset_js_sort size_mset)

lemma winnersCompare_tied:
  "score x = score y \<Longrightarrow> totalTimeMs x = totalTimeMs y \<Longrightarrow> winnersCompare x y \<le> 0"
  by (simp add: winnersCompare_def)

text \<open>
  C6. \<open>checkAndNotifyWinners\<close> emits one \<open>winnerNotification\<close> when some player has
  finished, and nothing otherwise. Its entries are the name, the score and the formatted
  time of the players \<open>top\<close>: the first three, or all when there are fewer, of the finished
  players of the registry arranged by higher score and then by shorter time, players equal
  in both staying in the order of the registry. So there are at most three entries, all of
  finished players, and the three finished players of the scenario come out as
  \<open>[100/5000, 100/6000, 90/4000]\<close>.
\<close>

theorem winners_top_three:
  "\<exists>top rest.
     emitted (checkAndNotifyWinners s) =
       emitted s @ (if top = [] then []
                    else [(ToAll, WinnerNotification
                             (map (\<lambda>p. \<lparr>w_name = name p, w_score = score p,
                                        w_time = formatTime (totalTimeMs p)\<rparr>) top))])
     \<and> length top = min 3 (length (filter (\<lambda>p. status p = Finished) (players s)))
     \<and> mset (top @ rest) = mset (filter (\<lambda>p. status p = Finished) (players s))
     \<and> sorted_wrt wins_before (top @ rest)
     \<and> (\<forall>sc t. filter (\<lambda>p. score p = sc \<and> totalTimeMs p = t) (top @ rest)
               = filter (\<lambda>p. score p = sc \<and> totalTimeMs p = t)
                   (filter (\<lambda>p. status p = Finished) (players s)))
     \<and> (score a = 100 \<and> totalTimeMs a = 5000 \<and> score b = 100 \<and> totalTimeMs b = 6000
          \<and> score c = 90 \<and> totalTimeMs c = 4000
          \<and> mset (filter (\<lambda>p. status p = Finished) (players s)) = mset [a, b, c]
         \<longrightarrow> top = [a, b, c])"
proof -
  let ?F = "filter (\<lambda>p. status p = Finished) (players s)"
  let ?R = "js_sort winnersCompare ?F"
  let ?top = "take 3 ?R" and ?rest = "drop 3 ?R"
  have top: "topFinished (players s) = ?top" by (simp add: topFinished_def)
  have entry: "winnerEntry = (\<lambda>p. \<lparr>w_name = name p, w_score = score p,
                                     w_time = formatTime (totalTimeMs p)\<rparr>)"
    by (rule ext) (simp add: winnerEntry_def)
  have 1: "emitted (checkAndNotifyWinners s) =
       emitted s @ (if ?top = [] then []
                    else [(ToAll, WinnerNotification
                             (map (\<lambda>p. \<lparr>w_name = name p, w_score = score p,
                                        w_time = formatTime (totalTimeMs p)\<rparr>) ?top))])"
    by (simp add: checkAndNotifyWinners_def finishedPlayers_def top emit_def entry Let_def)
  have 2: "length ?top = min 3 (length ?F)"
    by (simp add: length_js_sort min.commute)
  have 3: "mset (?top @ ?rest) = mset ?F" by (simp add: mset_js_sort)
  have 4: "sorted_wrt wins_before (?top @ ?rest)" by (simp add: sorted_js_sort_winners)
  have 5: "\<forall>sc t. filter (\<lambda>p. score p = sc \<and> totalTimeMs p = t) (?top @ ?rest)
               = filter (\<lambda>p. score p = sc \<and> totalTimeMs p = t) ?F"
  proof (intro allI)
    fix sc t
    have "filter (\<lambda>p. score p = sc \<and> totalTimeMs p = t) ?R
            = filter (\<lambda>p. score p = sc \<and> totalTimeMs p = t) ?F"
      by (rule filter_js_sort) (simp add: winnersCompare_tied)
    then show "filter (\<lambda>p. score p = sc \<and> totalTimeMs p = t) (?top @ ?rest)
               = filter (\<lambda>p. score p = sc \<and> totalTimeMs p = t) ?F"
      by simp
  qed
  have 6: "score a = 100 \<and> totalTimeMs a = 5000 \<and> score b = 100 \<and> totalTimeMs b = 6000
          \<and> score c = 90 \<and> totalTimeMs c = 4000 \<and> mset ?F = mset [a, b, c]
         \<longrightarrow> ?top = [a, b, c]"
    using topFinished_three [of a b c "players s"] by (simp add: top)
  from 1 2 3 4 5 6 show ?thesis by blast
qed

text \<open>The registry \<open>podium\<close> lists the three in another order.\<close>

lemma podium_players:
  "players podium = [finisher ''c'' 90 4000, newcomer ''n'', finisher ''b'' 100 6000,
                     finisher ''a'' 100 5000]"
  "emitted podium = []"
  by (simp_all add: podium_def players_def initial_def)

theorem winners_top_three_witness:
  "emitted (checkAndNotifyWinners podium) =
     [(ToAll, WinnerNotification
        [\<lparr>w_name = JStr ''a'', w_score = 100, w_time = ''00:05.00''\<rparr>,
         \<lparr>w_name = JStr ''b'', w_score = 100, w_time = ''00:06.00''\<rparr>,
         \<lparr>w_name = JStr ''c'', w_score = 90, w_time = ''00:04.00''\<rparr>])]"
proof -
  obtain top rest where
    e: "emitted (checkAndNotifyWinners podium) =
       emitted podium @ (if top = [] then []
                    else [(ToAll, WinnerNotification
                             (map (\<lambda>p. \<lparr>w_name = name p, w_score = score p,
                                        w_time = formatTime (totalTimeMs p)\<rparr>) top))])"
    and t: "score (finisher ''a'' 100 5000) = 100 \<and> totalTimeMs (finisher ''a'' 100 5000) = 5000
          \<and> score (finisher ''b'' 100 6000) = 100 \<and> totalTimeMs (finisher ''b'' 100 6000) = 6000
          \<and> score (finisher ''c'' 90 4000) = 90 \<and> totalTimeMs (finisher ''c'' 90 4000) = 4000
          \<and> mset (filter (\<lambda>p. status p = Finished) (players podium))
              = mset [finisher ''a'' 100 5000, finisher ''b'' 100 6000, finisher ''c'' 90 4000]
         \<longrightarrow> top = [finisher ''a'' 100 5000, finisher ''b'' 100 6000, finisher ''c'' 90 4000]"
    using winners_top_three [of podium "finisher ''a'' 100 5000" "finisher ''b'' 100 6000"
            "finisher ''c'' 90 4000"]
    by blast
  have "top = [finisher ''a'' 100 5000, finisher ''b'' 100 6000, finisher ''c'' 90 4000]"
    using t by (simp add: podium_players finisher_def newcomer_def unallocated_def)
  then show ?thesis
    using e by (simp add: podium_players finisher_def unallocated_def format_defs)
qed

text \<open>With a fourth finished player, of 80 points, the same three are sent.\<close>

lemma winners_of_four:
  "emitted (checkAndNotifyWinners podium_of_four) =
     [(ToAll, WinnerNotification
        [\<lparr>w_name = JStr ''a'', w_score = 100, w_time = ''00:05.00''\<rparr>,
         \<lparr>w_name = JStr ''b'', w_score = 100, w_time = ''00:06.00''\<rparr>,
         \<lparr>w_name = JStr ''c'', w_score = 90, w_time = ''00:04.00''\<rparr>])]"
  by (simp add: podium_of_four_def podium_def checkAndNotifyWinners_def players_def initial_def
        emit_def finishedPlayers_def topFinished_def js_sort_def winnersCompare_def
        winnerEntry_def finisher_def newcomer_def unallocated_def format_defs)

lemma finishedPlayers_empty:
  "finishedPlayers ps = [] \<longleftrightarrow> (\<forall>p \<in> set ps. status p \<noteq> Finished)"
proof -
  have "finishedPlayers ps = [] \<longleftrightarrow> js_sort winnersCompare (filter (\<lambda>p. status p = Finished) ps) = []"
    by (simp add: finishedPlayers_def topFinished_def)
  also have "\<dots> \<longleftrightarrow> set (js_sort winnersCompare (filter (\<lambda>p. status p = Finished) ps)) = {}"
    by simp
  also have "\<dots> \<longleftrightarrow> (\<forall>p \<in> set ps. status p \<noteq> Finished)"
    by (auto simp: set_js_sort)
  finally show ?thesis .
qed

text \<open>
  C10. When no player of the registry has finished, \<open>checkAndNotifyWinners\<close> leaves the
  state as it is: in particular it emits nothing, no \<open>winnerNotification\<close> with an
  empty array either.
\<close>

theorem no_finished_no_notification:
  assumes "\<forall>p \<in> set (players s). status p \<noteq> Finished"
  shows "checkAndNotifyWinners s = s"
  using assms finishedPlayers_empty [of "players s"]
  by (simp add: checkAndNotifyWinners_def)

text \<open>With a finished player in the registry, one non-empty notification is sent.\<close>

lemma some_finished_notification:
  assumes "p \<in> set (players s)" "status p = Finished"
  shows "emitted (checkAndNotifyWinners s) =
           emitted s @ [(ToAll, WinnerNotification (finishedPlayers (players s)))]
         \<and> finishedPlayers (players s) \<noteq> []"
  using assms finishedPlayers_empty [of "players s"]
  by (auto simp: checkAndNotifyWinners_def emit_def)

text \<open>The state after Alice has joined.\<close>

lemma joined_facts:
  "map_of (activePlayers joined) ''a'' = Some 0"
  "activePlayers joined = [(''a'', 0)]"
  "status (heap joined 0) = InProgress"
  "questionIndex (heap joined 0) = 0"
  "score (heap joined 0) = 0"
  "gameStartTime (heap joined 0) = 1000"
  "questionSet (heap joined 0) = generateQuestionSet sevens"
  "timer (heap joined 0) = Some 0"
  "map fst (intervals joined) = [0]"
  "timeouts joined = []"
  by (simp_all add: joined_def handler_defs Let_def)

lemma joined_interval:
  "intervals joined = [(0, \<lparr>ivPlayer = 0, ivPlayerId = ''a'', timeLeft = 60\<rparr>)]"
  by (simp add: joined_def handler_defs TIME_PER_QUESTION_SECONDS_def Let_def)

text \<open>After Alice has joined, she is the one player and still playing.\<close>

theorem no_finished_no_notification_witness:
  "map status (players joined) = [InProgress] \<and> checkAndNotifyWinners joined = joined"
  using no_finished_no_notification [of joined]
  by (simp add: players_def joined_facts)


section \<open>What the functions leave alone\<close>

lemma broadcastLeaderboard_frame [simp]:
  "heap (broadcastLeaderboard s) = heap s"
  "activePlayers (broadcastLeaderboard s) = activePlayers s"
  "timeouts (broadcastLeaderboard s) = timeouts s"
  "sockets (broadcastLeaderboard s) = sockets s"
  "intervals (broadcastLeaderboard s) = intervals s"
  "nextRef (broadcastLeaderboard s) = nextRef s"
  "nextHandle (broadcastLeaderboard s) = nextHandle s"
  by (simp_all add: broadcastLeaderboard_def emit_def Let_def)

lemma checkAndNotifyWinners_frame [simp]:
  "heap (checkAndNotifyWinners s) = heap s"
  "activePlayers (checkAndNotifyWinners s) = activePlayers s"
  "timeouts (checkAndNotifyWinners s) = timeouts s"
  "sockets (checkAndNotifyWinners s) = sockets s"
  "intervals (checkAndNotifyWinners s) = intervals s"
  "nextRef (checkAndNotifyWinners s) = nextRef s"
  "nextHandle (checkAndNotifyWinners s) = nextHandle s"
  by (simp_all add: checkAndNotifyWinners_def emit_def Let_def)

lemma startQuestionTimer_frame [simp]:
  "activePlayers (startQuestionTimer p now s) = activePlayers s"
  "timeouts (startQuestionTimer p now s) = timeouts s"
  "sockets (startQuestionTimer p now s) = sockets s"
  "nextRef (startQuestionTimer p now s) = nextRef s"
  by (simp_all add: startQuestionTimer_def prim_defs Let_def split: option.splits)

lemma startQuestionTimer_player [simp]:
  "questionIndex (heap (startQuestionTimer p now s) r) = questionIndex (heap s r)"
  "status (heap (startQuestionTimer p now s) r) = status (heap s r)"
  "score (heap (startQuestionTimer p now s) r) = score (heap s r)"
  "questionSet (heap (startQuestionTimer p now s) r) = questionSet (heap s r)"
  "gameStartTime (heap (startQuestionTimer p now s) r) = gameStartTime (heap s r)"
  "totalTimeMs (heap (startQuestionTimer p now s) r) = totalTimeMs (heap s r)"
  by (simp_all add: startQuestionTimer_def prim_defs Let_def split: option.splits)

lemma emitted_mono_broadcastLeaderboard:
  "e \<in> set (emitted s) \<Longrightarrow> e \<in> set (emitted (broadcastLeaderboard s))"
  by (simp add: emitted_broadcastLeaderboard)

lemma emitted_mono_checkAndNotifyWinners:
  "e \<in> set (emitted s) \<Longrightarrow> e \<in> set (emitted (checkAndNotifyWinners s))"
  by (simp add: checkAndNotifyWinners_def emit_def Let_def)

section \<open>Reading numbers back\<close>

text \<open>
  The decimal digits of a natural number are digits, start with one and have the number
  as their value, so \<open>parseInt\<close> reads them as the number.
\<close>

lemma digit_cases:
  "k < (10::nat) \<Longrightarrow>
   k = 0 \<or> k = 1 \<or> k = 2 \<or> k = 3 \<or> k = 4 \<or> k = 5 \<or> k = 6 \<or> k = 7 \<or> k = 8 \<or> k = 9"
  by arith

lemma digit_char_props:
  "isDigit (digit_char d)" "digit_val (digit_char d) = d mod 10"
  "\<not> isWhiteSpace (digit_char d)" "digit_char d \<noteq> CHR ''-''" "digit_char d \<noteq> CHR ''+''"
proof -
  have "d mod 10 < 10" by simp
  then have "d mod 10 = 0 \<or> d mod 10 = 1 \<or> d mod 10 = 2 \<or> d mod 10 = 3 \<or> d mod 10 = 4
      \<or> d mod 10 = 5 \<or> d mod 10 = 6 \<or> d mod 10 = 7 \<or> d mod 10 = 8 \<or> d mod 10 = 9"
    by (rule digit_cases)
  then have "isDigit (digit_char d) \<and> digit_val (digit_char d) = d mod 10
      \<and> \<not> isWhiteSpace (digit_char d) \<and> digit_char d \<noteq> CHR ''-'' \<and> digit_char d \<noteq> CHR ''+''"
    by (elim disjE) (simp_all add: digit_char_def isDigit_def digit_val_def isWhiteSpace_def)
  then show "isDigit (digit_char d)" "digit_val (digit_char d) = d mod 10"
    "\<not> isWhiteSpace (digit_char d)" "digit_char d \<noteq> CHR ''-''" "digit_char d \<noteq> CHR ''+''"
    by simp_all
qed

lemma digits_val_snoc: "digits_val (ds @ [c]) = 10 * digits_val ds + digit_val c"
  by (simp add: digits_val_def)

lemma show_nat_digits: "c \<in> set (show_nat n) \<Longrightarrow> isDigit c"
proof (induction n arbitrary: c rule: show_nat.induct)
  case (1 n)
  show ?case
  proof (cases "n < 10")
    case True
    with "1.prems" show ?thesis by (simp add: show_nat.simps [of n] digit_char_props)
  next
    case False
    with "1.prems" "1.IH" show ?thesis
      by (auto simp: show_nat.simps [of n] digit_char_props)
  qed
qed

lemma show_nat_value: "digits_val (show_nat n) = n"
proof (induction n rule: show_nat.induct)
  case (1 n)
  show ?case
  proof (cases "n < 10")
    case True
    then show ?thesis
      by (simp add: show_nat.simps [of n] digits_val_def digit_char_props)
  next
    case False
    with "1.IH" show ?thesis
      by (simp add: show_nat.simps [of n] digits_val_snoc digit_char_props)
  qed
qed

lemma show_nat_hd: "\<exists>d cs. show_nat n = digit_char d # cs"
proof (induction n rule: show_nat.induct)
  case (1 n)
  show ?case
  proof (cases "n < 10")
    case True
    then have "show_nat n = digit_char n # []" by (simp add: show_nat.simps [of n])
    then show ?thesis by blast
  next
    case False
    with "1.IH" obtain d cs where "show_nat (n div 10) = digit_char d # cs" by blast
    with False have "show_nat n = digit_char d # (cs @ [digit_char n])"
      by (simp add: show_nat.simps [of n])
    then show ?thesis by blast
  qed
qed

lemma parseInt10_show_nat: "parseInt10 (show_nat n) = Some (int n)"
proof -
  obtain d cs where s: "show_nat n = digit_char d # cs" using show_nat_hd by blast
  have "\<forall>c \<in> set cs. isDigit c" using show_nat_digits [of _ n] by (simp add: s)
  then have tw: "takeWhile isDigit cs = cs" by simp
  have val: "digits_val (digit_char d # cs) = n" using show_nat_value [of n] by (simp add: s)
  show ?thesis
    by (simp add: parseInt10_def s digit_char_props tw val)
qed

lemma parseInt10_minus_show_nat: "parseInt10 (CHR ''-'' # show_nat n) = Some (- int n)"
proof -
  obtain d cs where s: "show_nat n = digit_char d # cs" using show_nat_hd by blast
  have ws: "\<not> isWhiteSpace CHR ''-''" by (simp add: isWhiteSpace_def)
  have "\<forall>c \<in> set cs. isDigit c" using show_nat_digits [of _ n] by (simp add: s)
  then have tw: "takeWhile isDigit cs = cs" by simp
  have val: "digits_val (digit_char d # cs) = n" using show_nat_value [of n] by (simp add: s)
  show ?thesis
    by (simp add: parseInt10_def s ws digit_char_props tw val)
qed

text \<open>
  The form of an integer prints as its decimal digits when it has at most 21 of them:
  the digits without the zeros at the end, and the zeros again.
\<close>

lemma show_nat_times_10:
  assumes "0 < b"
  shows "show_nat (10 * b) = show_nat b @ ''0''"
proof -
  have "\<not> 10 * b < 10" using assms by simp
  then show ?thesis by (simp add: show_nat.simps [of "10 * b"] digit_char_def)
qed

lemma show_nat_strip0: "0 < n \<Longrightarrow> \<exists>j. show_nat n = show_nat (strip0 n) @ replicate j CHR ''0''"
proof (induction n rule: strip0.induct)
  case (1 n)
  show ?case
  proof (cases "n \<noteq> 0 \<and> n mod 10 = 0")
    case True
    then have n: "n = 10 * (n div 10)" and pos: "0 < n div 10" by auto
    from "1.IH" [OF True pos] obtain j where
      j: "show_nat (n div 10) = show_nat (strip0 (n div 10)) @ replicate j CHR ''0''" by blast
    have "show_nat n = show_nat (n div 10) @ ''0''"
      using show_nat_times_10 [OF pos] n by simp
    also have "\<dots> = show_nat (strip0 (n div 10)) @ replicate (Suc j) CHR ''0''"
      by (simp add: j replicate_append_same)
    also have "strip0 (n div 10) = strip0 n" using True by (simp add: strip0.simps [of n])
    finally show ?thesis by blast
  next
    case False
    then have "strip0 n = n" using strip0.simps [of n] by metis
    then have "show_nat n = show_nat (strip0 n) @ replicate 0 CHR ''0''" by simp
    then show ?thesis by blast
  qed
qed

lemma length_show_nat: "0 < k \<Longrightarrow> n < 10 ^ k \<Longrightarrow> length (show_nat n) \<le> k"
proof (induction n arbitrary: k rule: show_nat.induct)
  case (1 n)
  show ?case
  proof (cases "n < 10")
    case True
    with "1.prems" show ?thesis by (simp add: show_nat.simps [of n])
  next
    case False
    obtain k' where k: "k = Suc k'" using "1.prems"(1) by (cases k) auto
    have "0 < k'"
    proof (rule ccontr)
      assume "\<not> 0 < k'"
      then have "k = 1" using k by simp
      with "1.prems"(2) False show False by simp
    qed
    moreover have "n div 10 < 10 ^ k'" using "1.prems"(2) k by (simp add: less_mult_imp_div_less)
    ultimately have "length (show_nat (n div 10)) \<le> k'" using "1.IH" [OF False] by blast
    then show ?thesis using False k by (simp add: show_nat.simps [of n])
  qed
qed

lemma number_digits_of_nat:
  assumes "0 < a" and "a < 10 ^ 21"
  shows "number_digits (strip0 a) (int (length (show_nat a))) = show_nat a"
proof -
  obtain j where j: "show_nat a = show_nat (strip0 a) @ replicate j CHR ''0''"
    using show_nat_strip0 [OF assms(1)] by blast
  have len: "length (show_nat a) = length (show_nat (strip0 a)) + j"
    by (subst j) simp
  have "length (show_nat a) \<le> 21" using length_show_nat [of 21 a] assms(2) by simp
  then show ?thesis
    unfolding number_digits_def Let_def len
    by (simp add: j [symmetric] len)
qed

lemma toString_JNum:
  assumes "\<bar>m\<bar> < 10 ^ 21"
  shows "toString (JNum m) = show_int m"
proof (cases "m = 0")
  case True
  then show ?thesis by (simp add: JNum_def number_of_int_def show_int_def show_nat_0)
next
  case False
  let ?a = "nat \<bar>m\<bar>"
  have pos: "0 < ?a" using False by simp
  have "int ?a < 10 ^ 21" using assms by simp
  then have "?a < 10 ^ 21" by (metis of_nat_less_iff of_nat_numeral of_nat_power)
  then have d: "number_digits (strip0 ?a) (int (length (show_nat ?a))) = show_nat ?a"
    using number_digits_of_nat [OF pos] by blast
  show ?thesis
  proof (cases "m < 0")
    case True
    then have "nat (- m) = ?a" by simp
    then show ?thesis using True False d by (simp add: JNum_def number_of_int_def show_int_def)
  next
    case False
    then have "nat m = ?a" by simp
    then show ?thesis using False \<open>m \<noteq> 0\<close> d
      by (simp add: JNum_def number_of_int_def show_int_def)
  qed
qed

text \<open>So \<open>parseInt\<close> reads an integer below \<open>10 ^ 21\<close> in magnitude as itself.\<close>

lemma parseInt_number:
  assumes "\<bar>n\<bar> < 10 ^ 21"
  shows "parseInt (JNum n) = Some n"
proof (cases "n < 0")
  case True
  then show ?thesis
    by (simp add: parseInt_def toString_JNum [OF assms] show_int_def parseInt10_minus_show_nat)
next
  case False
  then show ?thesis
    by (simp add: parseInt_def toString_JNum [OF assms] show_int_def parseInt10_show_nat)
qed

lemma JNum_eq_iff:
  assumes "\<bar>a\<bar> < 10 ^ 21" and "\<bar>b\<bar> < 10 ^ 21"
  shows "JNum a = JNum b \<longleftrightarrow> a = b"
proof
  assume "JNum a = JNum b"
  then have "parseInt (JNum a) = parseInt (JNum b)" by simp
  then show "a = b" by (simp add: parseInt_number [OF assms(1)] parseInt_number [OF assms(2)])
qed simp

text \<open>
  Other numbers: from \<open>1e21\<close> on and below \<open>1e-6\<close> a number prints in exponent form, of
  which \<open>parseInt\<close> reads the first digit; of a fraction it reads the integer part.
\<close>

lemma toString_examples:
  "toString (JNumber (Decimal False 7 22)) = ''7e+21''"
  "toString (JNumber (Decimal False 79 1)) = ''7.9''"
  "toString (JNumber (Decimal False 1 22)) = ''1e+21''"
  "toString (JNumber (Decimal True 5 (- 6))) = ''-5e-7''"
  "toString (JNumber (Decimal False 15 (- 6))) = ''1.5e-7''"
  "toString (JNumber (Decimal False 1 (- 5))) = ''0.000001''"
  "toString (JNumber (Decimal False 5 0)) = ''0.5''"
  "toString (JNumber (Decimal False 12345678901234568 21)) = ''123456789012345680000''"
  "toString (JNumber (Decimal False 12345678901234568 22)) = ''1.2345678901234568e+21''"
  "toString (JNum 1000) = ''1000''" "toString (JNum (- 42)) = ''-42''"
  by (simp_all add: parse_defs)

lemma parseInt_examples:
  "parseInt (JNumber (Decimal False 7 22)) = Some 7"
  "parseInt (JNumber (Decimal False 1 22)) = Some 1"
  "parseInt (JNumber (Decimal False 79 1)) = Some 7"
  "parseInt (JNumber (Decimal False 5 (- 6))) = Some 5"
  "parseInt (JNumber (Decimal False 5 0)) = Some 0"
  "parseInt (JStr ''  -42abc'') = Some (- 42)"
  "parseInt (JObject ''7'') = Some 7"
  "parseInt JUndefined = None" "parseInt JNull = None" "parseInt (JBool True) = None"
  "parseInt (JNumber NotANumber) = None" "parseInt (JNumber PlusInfinity) = None"
  "parseInt (JNumber MinusInfinity) = None" "parseInt (JStr ''abc'') = None"
  by (simp_all add: parse_defs)

section \<open>Answer evaluation\<close>

text \<open>
  C7. A submission to a session that is in progress, whose answer \<open>parseInt\<close> reads
  as the integer \<open>n\<close>, while \<open>q\<close> is the current question. It is answered as
  correct exactly when the submitted id is the id of \<open>q\<close> and \<open>n\<close> is its answer:
  then the feedback says so, the score grows by the points of \<open>q\<close> and an advance is
  scheduled after 1000 ms. Otherwise the feedback is \<open>Incorrect.\<close>, the score stays and
  the advance is scheduled after 2000 ms. The string \<open>"7"\<close> and the number \<open>7\<close> are
  both read as 7. The answer can be any value: what counts is what \<open>parseInt\<close> reads
  of the string it prints as, so that \<open>7.9\<close> and \<open>7e21\<close> count as 7 too. The id and the
  answer of the question are integers below \<open>2 ^ 53\<close> in magnitude, as those of every
  generated question are (\<open>generated_question\<close> below): there \<open>JNum\<close> is the form of the
  number, and comparing the number that \<open>parseInt\<close> returns is comparing \<open>n\<close>. The ids are compared with \<open>===\<close>, so the submitted id has to be the
  number. In a reachable state the current question exists
  (\<open>reachable_current_question\<close> below).
\<close>

theorem submitAnswer_outcome:
  assumes "map_of (activePlayers s) sid = Some r"
      and "status (heap s r) = InProgress"
      and "js_nth (questionSet (heap s r)) (questionIndex (heap s r)) = Some q"
      and "parseInt (dataAnswer d) = Some n"
      and "s' = submitAnswer sid (Some d) s"
      and "\<bar>qid q\<bar> < 2 ^ 53" and "\<bar>answer q\<bar> < 2 ^ 53"
  shows "(if questionId d = JNum (qid q) \<and> n = answer q
          then emitted s' = emitted s @ [(ToSocket sid, AnswerFeedback True None (JNum (answer q)))]
               \<and> score (heap s' r) = score (heap s r) + points q
               \<and> timeouts s' = timeouts s @ [(1000, sid)]
          else emitted s' = emitted s @ [(ToSocket sid,
                                AnswerFeedback False (Some ''Incorrect.'') (JNum (answer q)))]
               \<and> score (heap s' r) = score (heap s r)
               \<and> timeouts s' = timeouts s @ [(2000, sid)])
         \<and> parseInt (JStr ''7'') = Some 7 \<and> parseInt (JNum 7) = Some 7"
proof -
  have "parseInt (JStr ''7'') = Some 7 \<and> parseInt (JNum 7) = Some 7"
    by (simp add: parse_defs)
  then show ?thesis
    using assms
    by (auto simp: submitAnswer_def submitAnswer_try_def prim_defs Let_def split: option.splits)
qed

text \<open>On this path the handler clears the interval of the player and its handle.\<close>

lemma submitAnswer_valid_clears_timer:
  assumes "map_of (activePlayers s) sid = Some r"
      and "status (heap s r) = InProgress"
      and "js_nth (questionSet (heap s r)) (questionIndex (heap s r)) = Some q"
      and "parseInt (dataAnswer d) = Some n"
      and "s' = submitAnswer sid (Some d) s"
  shows "timer (heap s' r) = None"
    and "timer (heap s r) = Some h \<Longrightarrow> map_of (intervals s') h = None"
  using assms
  by (auto simp: submitAnswer_def submitAnswer_try_def prim_defs Let_def map_of_eq_None_iff
           split: option.splits)

text \<open>
  C9. A submission to a session that is in progress, whose answer \<open>parseInt\<close> does not
  read as a number: the feedback \<open>Invalid Input.\<close> with \<open>isCorrect = false\<close> and the
  answer of the current question is sent, an advance is scheduled after 2000 ms, and the
  handler returns; it does not throw.
\<close>

theorem submitAnswer_invalid_input:
  assumes "map_of (activePlayers s) sid = Some r"
      and "status (heap s r) = InProgress"
      and "js_nth (questionSet (heap s r)) (questionIndex (heap s r)) = Some q"
      and "parseInt (dataAnswer d) = None"
      and "s' = submitAnswer sid (Some d) s"
  shows "emitted s' = emitted s @ [(ToSocket sid,
                         AnswerFeedback False (Some ''Invalid Input.'') (JNum (answer q)))]
         \<and> timeouts s' = timeouts s @ [(2000, sid)]
         \<and> step (SubmitAnswer sid (Some d)) s = Inr s'"
  using assms
  by (auto simp: submitAnswer_def submitAnswer_try_def prim_defs Let_def split: option.splits)

text \<open>
  A generated question has an answer from 1 to 10 and 10 points, and its id is the clock
  plus its index, when the random draws are in their range.
\<close>

lemma generated_question:
  assumes "q \<in> set (generateQuestionSet draws)"
      and "\<And>i. i < MAX_QUESTIONS \<Longrightarrow> dX (draws i) < 10 \<and> \<bar>dNow (draws i)\<bar> < 2 ^ 52"
  shows "1 \<le> answer q \<and> answer q \<le> 10 \<and> points q = 10 \<and> \<bar>qid q\<bar> < 2 ^ 53"
proof -
  obtain i where i: "i < MAX_QUESTIONS" "q = makeQuestion i (draws i)"
    using assms(1) by (auto simp: generateQuestionSet_def)
  have "dX (draws i) < 10" and "\<bar>dNow (draws i)\<bar> < 2 ^ 52" using assms(2) [OF i(1)] by simp_all
  moreover have "int i < 10" using i(1) by (simp add: MAX_QUESTIONS_def)
  ultimately show ?thesis by (simp add: i(2) makeQuestion_def Let_def)
qed

text \<open>The questions of the example set, and the question Alice is at after joining.\<close>

lemma length_sevens: "length (generateQuestionSet sevens) = 10"
  by (simp add: generateQuestionSet_def MAX_QUESTIONS_def)

lemma nth_sevens:
  "i < 10 \<Longrightarrow> generateQuestionSet sevens ! i =
     \<lparr>qid = 1000 + int i, qtext = ''X + 3 = 10'', answer = 7, points = 10\<rparr>"
  by (simp add: generateQuestionSet_def MAX_QUESTIONS_def makeQuestion_def sevens_def
        show_int_def show_nat_eval digit_char_def Let_def del: upt_rec_numeral)

lemma joined_current:
  "js_nth (questionSet (heap joined 0)) (questionIndex (heap joined 0)) =
     Some \<lparr>qid = 1000, qtext = ''X + 3 = 10'', answer = 7, points = 10\<rparr>"
  using nth_sevens [of 0] by (simp add: joined_facts js_nth_def length_sevens)

text \<open>
  Alice sends the right answer as a string: 10 points and an advance after 1000 ms. Had
  she sent the number 8: no points and an advance after 2000 ms. Had she sent the number
  \<open>7e21\<close>, which prints as \<open>7e+21\<close> and is read as 7: 10 points and an advance after
  1000 ms. Had she sent the id as a string: no points.
\<close>

theorem submitAnswer_outcome_witness:
  "score (heap (submitAnswer ''a'' (answer_at 0) joined) 0) = 10
   \<and> timeouts (submitAnswer ''a'' (answer_at 0) joined) = [(1000, ''a'')]
   \<and> score (heap (submitAnswer ''a'' (Some \<lparr>questionId = JNum 1000, dataAnswer = JNum 8\<rparr>) joined) 0) = 0
   \<and> timeouts (submitAnswer ''a'' (Some \<lparr>questionId = JNum 1000, dataAnswer = JNum 8\<rparr>) joined)
       = [(2000, ''a'')]
   \<and> score (heap (submitAnswer ''a''
         (Some \<lparr>questionId = JNum 1000, dataAnswer = JNumber (Decimal False 7 22)\<rparr>) joined) 0) = 10
   \<and> timeouts (submitAnswer ''a''
         (Some \<lparr>questionId = JNum 1000, dataAnswer = JNumber (Decimal False 7 22)\<rparr>) joined)
       = [(1000, ''a'')]
   \<and> score (heap (submitAnswer ''a''
         (Some \<lparr>questionId = JStr ''1000'', dataAnswer = JNum 7\<rparr>) joined) 0) = 0"
  using submitAnswer_outcome [OF joined_facts(1) joined_facts(3) joined_current,
          of "\<lparr>questionId = JNum 1000, dataAnswer = JStr ''7''\<rparr>" 7
             "submitAnswer ''a'' (answer_at 0) joined"]
        submitAnswer_outcome [OF joined_facts(1) joined_facts(3) joined_current,
          of "\<lparr>questionId = JNum 1000, dataAnswer = JNum 8\<rparr>" 8
             "submitAnswer ''a'' (Some \<lparr>questionId = JNum 1000, dataAnswer = JNum 8\<rparr>) joined"]
        submitAnswer_outcome [OF joined_facts(1) joined_facts(3) joined_current,
          of "\<lparr>questionId = JNum 1000, dataAnswer = JNumber (Decimal False 7 22)\<rparr>" 7
             "submitAnswer ''a''
               (Some \<lparr>questionId = JNum 1000, dataAnswer = JNumber (Decimal False 7 22)\<rparr>) joined"]
        submitAnswer_outcome [OF joined_facts(1) joined_facts(3) joined_current,
          of "\<lparr>questionId = JStr ''1000'', dataAnswer = JNum 7\<rparr>" 7
             "submitAnswer ''a'' (Some \<lparr>questionId = JStr ''1000'', dataAnswer = JNum 7\<rparr>) joined"]
  by (simp add: answer_at_def joined_facts parse_defs)

text \<open>Alice sends \<open>"abc"\<close>.\<close>

theorem submitAnswer_invalid_input_witness:
  "emitted (submitAnswer ''a'' not_a_number joined) =
     emitted joined @ [(ToSocket ''a'', AnswerFeedback False (Some ''Invalid Input.'') (JNum 7))]
   \<and> timeouts (submitAnswer ''a'' not_a_number joined) = [(2000, ''a'')]"
  using submitAnswer_invalid_input [OF joined_facts(1) joined_facts(3) joined_current,
          of "\<lparr>questionId = JNum 1000, dataAnswer = JStr ''abc''\<rparr>"
             "submitAnswer ''a'' not_a_number joined"]
  by (simp add: not_a_number_def joined_facts parse_defs)

text \<open>
  C2. The handler clears the timer after the check of \<open>isNaN\<close>, and the branch of that
  check returns before: Alice has the interval 0 running when she sends \<open>"abc"\<close>, and
  after the handler has sent the feedback \<open>Invalid Input.\<close> and scheduled the advance
  after 2000 ms, the interval is still live, its handle is still in her \<open>timer\<close>
  field, and its next tick sends \<open>updateTimer\<close> 59. The specification has the timer
  cancelled on every submission.
\<close>

theorem invalid_input_keeps_timer:
  "timer (heap joined 0) = Some 0
   \<and> timer (heap (submitAnswer ''a'' not_a_number joined) 0) = Some 0
   \<and> intervals (submitAnswer ''a'' not_a_number joined)
       = [(0, \<lparr>ivPlayer = 0, ivPlayerId = ''a'', timeLeft = 60\<rparr>)]
   \<and> timeouts (submitAnswer ''a'' not_a_number joined) = [(2000, ''a'')]
   \<and> last (emitted (submitAnswer ''a'' not_a_number joined)) =
       (ToSocket ''a'', AnswerFeedback False (Some ''Invalid Input.'') (JNum 7))
   \<and> (\<exists>s. tick 0 (submitAnswer ''a'' not_a_number joined) = Inr s
          \<and> last (emitted s) = (ToSocket ''a'', UpdateTimer 59))"
  using joined_current
  by (simp add: submitAnswer_def submitAnswer_try_def not_a_number_def joined_facts parse_defs
        prim_defs joined_interval tick_def)

section \<open>Runs\<close>

text \<open>A run in two parts.\<close>

lemma run_append:
  "run (xs @ ys) s = (case run xs s of Inl e \<Rightarrow> Inl e | Inr s' \<Rightarrow> run ys s')"
  by (induction xs arbitrary: s) (auto split: sum.splits)

lemma run_alice_joins: "run alice_joins initial = Inr joined"
  by (simp add: alice_joins_def joined_def)

lemma session_joined:
  "session joined ''a'' 0 0 InProgress 0 (generateQuestionSet sevens) 1000 []"
  by (simp add: session_def joined_facts)

text \<open>How a right answer and a firing advance move a session on.\<close>

lemma session_submit:
  assumes "session s sid r i InProgress sc qs start pending"
      and "i < length qs"
      and "parseInt (dataAnswer d) = Some (answer (qs ! i))"
      and "questionId d = JNum (qid (qs ! i))"
  shows "session (submitAnswer sid (Some d) s) sid r i InProgress (sc + points (qs ! i)) qs start
           (pending @ [sid])"
  using assms
  by (auto simp: session_def submitAnswer_def submitAnswer_try_def js_nth_def prim_defs Let_def
           split: option.splits)

lemma session_advance:
  assumes "session s sid r i st sc qs start (sid # pending)"
      and "Suc i < MAX_QUESTIONS"
  shows "session (fireTimeout 0 now s) sid r (Suc i) st sc qs start pending"
proof -
  obtain d ts where ts: "timeouts s = (d, sid) # ts" "map snd ts = pending"
    using assms(1) by (auto simp: session_def)
  show ?thesis
    using assms ts
    by (auto simp: session_def fireTimeout_def moveToNextQuestion_def js_nth_def prim_defs Let_def
             split: option.splits)
qed

lemma session_finish:
  assumes "session s sid r i st sc qs start (sid # pending)"
      and "\<not> Suc i < MAX_QUESTIONS"
  shows "session (fireTimeout 0 now s) sid r (Suc i) Finished sc qs start pending"
    and "totalTimeMs (heap (fireTimeout 0 now s) r) = now - start"
proof -
  obtain d ts where ts: "timeouts s = (d, sid) # ts" "map snd ts = pending"
    using assms(1) by (auto simp: session_def)
  show "session (fireTimeout 0 now s) sid r (Suc i) Finished sc qs start pending"
    using assms ts
    by (auto simp: session_def fireTimeout_def moveToNextQuestion_def js_nth_def prim_defs Let_def
             split: option.splits)
  show "totalTimeMs (heap (fireTimeout 0 now s) r) = now - start"
    using assms ts
    by (auto simp: session_def fireTimeout_def moveToNextQuestion_def js_nth_def prim_defs Let_def
             split: option.splits)
qed

lemma session_submit_sevens:
  assumes "session s ''a'' 0 i InProgress sc (generateQuestionSet sevens) 1000 pending"
      and "i < 10"
  shows "session (submitAnswer ''a'' (answer_at i) s) ''a'' 0 i InProgress (sc + 10)
           (generateQuestionSet sevens) 1000 (pending @ [''a''])"
proof -
  have "parseInt (JStr ''7'') = Some 7" by (simp add: parse_defs)
  then show ?thesis
    using session_submit [OF assms(1), of "\<lparr>questionId = JNum (1000 + int i), dataAnswer = JStr ''7''\<rparr>"]
      assms(2)
    by (simp add: answer_at_def nth_sevens length_sevens)
qed

text \<open>The example run, round by round.\<close>

lemma run_round:
  assumes "session s ''a'' 0 i InProgress sc (generateQuestionSet sevens) 1000 []"
      and "Suc i < 10"
  shows "\<exists>s'. run (round_trace i) s = Inr s'
           \<and> session s' ''a'' 0 (Suc i) InProgress (sc + 10) (generateQuestionSet sevens) 1000 []"
proof -
  have "session (submitAnswer ''a'' (answer_at i) s) ''a'' 0 i InProgress (sc + 10)
          (generateQuestionSet sevens) 1000 [''a'']"
    using session_submit_sevens [OF assms(1)] assms(2) by simp
  then have "session (fireTimeout 0 (3000 + 2000 * int i) (submitAnswer ''a'' (answer_at i) s))
               ''a'' 0 (Suc i) InProgress (sc + 10) (generateQuestionSet sevens) 1000 []"
    using assms(2) by (intro session_advance) (simp_all add: MAX_QUESTIONS_def)
  then show ?thesis by (simp add: round_trace_def)
qed

lemma run_rounds:
  assumes "session s ''a'' 0 i InProgress sc (generateQuestionSet sevens) 1000 []"
      and "i + n < 10"
  shows "\<exists>s'. run (concat (map round_trace [i..<i + n])) s = Inr s'
           \<and> session s' ''a'' 0 (i + n) InProgress (sc + 10 * int n)
                (generateQuestionSet sevens) 1000 []"
  using assms(2)
proof (induction n)
  case 0
  with assms(1) show ?case by simp
next
  case (Suc n)
  then obtain s1 where s1: "run (concat (map round_trace [i..<i + n])) s = Inr s1"
      "session s1 ''a'' 0 (i + n) InProgress (sc + 10 * int n) (generateQuestionSet sevens) 1000 []"
    by auto
  from Suc.prems obtain s2 where s2: "run (round_trace (i + n)) s1 = Inr s2"
      "session s2 ''a'' 0 (Suc (i + n)) InProgress (sc + 10 * int n + 10)
         (generateQuestionSet sevens) 1000 []"
    using run_round [OF s1(2)] by auto
  have "run (concat (map round_trace [i..<i + Suc n])) s = Inr s2"
    using s1(1) s2(1) by (simp add: run_append)
  moreover have "sc + 10 * int n + 10 = sc + 10 * int (Suc n)" by simp
  ultimately show ?case using s2(2) by (metis add_Suc_right)
qed

lemma run_nine_rounds:
  "\<exists>s. run nine_rounds initial = Inr s
       \<and> session s ''a'' 0 9 InProgress 90 (generateQuestionSet sevens) 1000 []"
proof -
  obtain s where "run (concat (map round_trace [0..<0 + 9])) joined = Inr s"
      "session s ''a'' 0 (0 + 9) InProgress (0 + 10 * int 9) (generateQuestionSet sevens) 1000 []"
    using run_rounds [OF session_joined, of 9] by auto
  then show ?thesis
    by (auto simp: nine_rounds_def run_append run_alice_joins)
qed

text \<open>
  After the double submission and the first advance the session is finished at index 10,
  with 110 points, 20000 ms on the clock and one more advance pending.
\<close>

lemma run_double_submit:
  "\<exists>s. run double_submit initial = Inr s
       \<and> session s ''a'' 0 10 Finished 110 (generateQuestionSet sevens) 1000 [''a'']
       \<and> totalTimeMs (heap s 0) = 20000"
proof -
  obtain s9 where s9: "run nine_rounds initial = Inr s9"
      "session s9 ''a'' 0 9 InProgress 90 (generateQuestionSet sevens) 1000 []"
    using run_nine_rounds by auto
  let ?s1 = "submitAnswer ''a'' (answer_at 9) s9"
  let ?s2 = "submitAnswer ''a'' (answer_at 9) ?s1"
  let ?s3 = "fireTimeout 0 21000 ?s2"
  have 1: "session ?s1 ''a'' 0 9 InProgress 100 (generateQuestionSet sevens) 1000 [''a'']"
    using session_submit_sevens [OF s9(2)] by simp
  have 2: "session ?s2 ''a'' 0 9 InProgress 110 (generateQuestionSet sevens) 1000 [''a'', ''a'']"
    using session_submit_sevens [OF 1] by simp
  have 3: "session ?s3 ''a'' 0 10 Finished 110 (generateQuestionSet sevens) 1000 [''a'']"
       "totalTimeMs (heap ?s3 0) = 20000"
    using session_finish [OF 2, of 21000] by (simp_all add: MAX_QUESTIONS_def)
  have "run double_submit initial = Inr ?s3"
    using s9(1) by (simp add: double_submit_def run_append)
  then show ?thesis using 3 by blast
qed


section \<open>Advancing\<close>

text \<open>The guard of \<open>moveToNextQuestion\<close>: for a player id without a player it does nothing.\<close>

lemma advance_absent:
  "map_of (activePlayers s) playerId = None \<Longrightarrow> moveToNextQuestion playerId now s = s"
  by (simp add: moveToNextQuestion_def)

text \<open>
  C3. The specification makes \<open>advance\<close> do nothing on a session that is finished.
  \<open>moveToNextQuestion\<close> only checks that the player exists: on a finished player at or
  past the last index it increments \<open>questionIndex\<close> once more, overwrites
  \<open>totalTimeMs\<close> with the time of this call and emits \<open>gameOver\<close> again, so the
  state is not the one before.
\<close>

theorem advance_on_finished:
  assumes "map_of (activePlayers s) playerId = Some r"
      and "status (heap s r) = Finished"
      and "MAX_QUESTIONS \<le> questionIndex (heap s r)"
      and "s' = moveToNextQuestion playerId now s"
  shows "questionIndex (heap s' r) = questionIndex (heap s r) + 1
         \<and> totalTimeMs (heap s' r) = now - gameStartTime (heap s r)
         \<and> (ToRoom playerId,
              GameOver (score (heap s r)) (formatTime (now - gameStartTime (heap s r))))
             \<in> set (emitted s')
         \<and> s' \<noteq> s"
proof -
  have idx: "questionIndex (heap s' r) = questionIndex (heap s r) + 1"
    using assms
    by (auto simp: moveToNextQuestion_def prim_defs Let_def split: option.splits)
  have tot: "totalTimeMs (heap s' r) = now - gameStartTime (heap s r)"
    using assms
    by (auto simp: moveToNextQuestion_def prim_defs Let_def split: option.splits)
  have ev: "(ToRoom playerId,
              GameOver (score (heap s r)) (formatTime (now - gameStartTime (heap s r))))
             \<in> set (emitted s')"
    using assms
    by (auto simp: moveToNextQuestion_def prim_defs Let_def
             intro!: emitted_mono_checkAndNotifyWinners emitted_mono_broadcastLeaderboard
             split: option.splits)
  have "s' \<noteq> s" using idx by auto
  with idx tot ev show ?thesis by simp
qed

text \<open>
  In the run of the double submission the second advance finds the session finished at
  index 10 with 20000 ms, and leaves it at index 11 with 20001 ms and a second
  \<open>gameOver\<close>.
\<close>

theorem advance_on_finished_witness:
  "\<exists>s. run double_submit initial = Inr s
       \<and> map_of (activePlayers s) ''a'' = Some 0
       \<and> status (heap s 0) = Finished \<and> questionIndex (heap s 0) = 10
       \<and> totalTimeMs (heap s 0) = 20000
       \<and> questionIndex (heap (moveToNextQuestion ''a'' 21001 s) 0) = 11
       \<and> totalTimeMs (heap (moveToNextQuestion ''a'' 21001 s) 0) = 20001
       \<and> (ToRoom ''a'', GameOver 110 ''00:20.01'') \<in> set (emitted (moveToNextQuestion ''a'' 21001 s))
       \<and> moveToNextQuestion ''a'' 21001 s \<noteq> s"
proof -
  obtain s where s: "run double_submit initial = Inr s"
      "session s ''a'' 0 10 Finished 110 (generateQuestionSet sevens) 1000 [''a'']"
      "totalTimeMs (heap s 0) = 20000"
    using run_double_submit by auto
  have reg: "map_of (activePlayers s) ''a'' = Some 0" and fin: "status (heap s 0) = Finished"
    and idx: "questionIndex (heap s 0) = 10" and sc: "score (heap s 0) = 110"
    and st: "gameStartTime (heap s 0) = 1000"
    using s(2) by (simp_all add: session_def)
  have ft: "formatTime 20001 = ''00:20.01''" by (simp add: format_defs)
  have "questionIndex (heap (moveToNextQuestion ''a'' 21001 s) 0) = 11
       \<and> totalTimeMs (heap (moveToNextQuestion ''a'' 21001 s) 0) = 20001
       \<and> (ToRoom ''a'', GameOver 110 ''00:20.01'') \<in> set (emitted (moveToNextQuestion ''a'' 21001 s))
       \<and> moveToNextQuestion ''a'' 21001 s \<noteq> s"
    using advance_on_finished [OF reg fin, of "moveToNextQuestion ''a'' 21001 s" 21001]
    by (simp add: idx sc st ft MAX_QUESTIONS_def)
  with s(1) reg fin idx s(3) show ?thesis by blast
qed

text \<open>
  C4. The specification bounds \<open>questionIndex\<close> by the number of questions, 10. When
  both advances of the double submission have fired, Alice's \<open>questionIndex\<close> is 11.
\<close>

theorem questionIndex_exceeds_ten:
  "\<exists>s. run (double_submit @ [Timeout 0 21001]) initial = Inr s
       \<and> map_of (activePlayers s) ''a'' = Some 0
       \<and> status (heap s 0) = Finished
       \<and> questionIndex (heap s 0) = 11
       \<and> \<not> questionIndex (heap s 0) \<le> MAX_QUESTIONS"
proof -
  obtain s where s: "run double_submit initial = Inr s"
      "session s ''a'' 0 10 Finished 110 (generateQuestionSet sevens) 1000 [''a'']"
    using run_double_submit by auto
  have "session (fireTimeout 0 21001 s) ''a'' 0 (Suc 10) Finished 110
          (generateQuestionSet sevens) 1000 []"
    using session_finish(1) [OF s(2), of 21001] by (simp add: MAX_QUESTIONS_def)
  then have "map_of (activePlayers (fireTimeout 0 21001 s)) ''a'' = Some 0
       \<and> status (heap (fireTimeout 0 21001 s) 0) = Finished
       \<and> questionIndex (heap (fireTimeout 0 21001 s) 0) = 11
       \<and> \<not> questionIndex (heap (fireTimeout 0 21001 s) 0) \<le> MAX_QUESTIONS"
    by (simp add: session_def MAX_QUESTIONS_def)
  moreover have "run (double_submit @ [Timeout 0 21001]) initial = Inr (fireTimeout 0 21001 s)"
    using s(1) by (simp add: run_append)
  ultimately show ?thesis by blast
qed

section \<open>The question payload\<close>

text \<open>
  C1. The specification keeps the expected answer out of \<open>newQuestion\<close>. Both places
  that emit it spread the whole question object into the payload: the first question Alice
  gets on joining, and the next one she gets when her advance fires, carry
  \<open>answer: 7\<close>.
\<close>

theorem newQuestion_carries_answer:
  "run alice_joins initial = Inr joined
   \<and> (ToSocket ''a'',
       NewQuestion [(''id'', JNum 1000), (''text'', JStr ''X + 3 = 10''), (''answer'', JNum 7),
                    (''points'', JNum 10), (''index'', JNum 1), (''total'', JNum 10)])
      \<in> set (emitted joined)
   \<and> (ToRoom ''a'',
       NewQuestion [(''id'', JNum 1001), (''text'', JStr ''X + 3 = 10''), (''answer'', JNum 7),
                    (''points'', JNum 10), (''index'', JNum 2), (''total'', JNum 10)])
      \<in> set (emitted (fireTimeout 0 3000 (submitAnswer ''a'' (answer_at 0) joined)))"
  by (simp add: alice_joins_def joined_def answer_at_def sevens_def handler_defs data_defs parse_defs)


section \<open>Invariants of the reachable states\<close>

lemma state_ok_prims [simp]:
  "state_ok (emit t e s) = state_ok s"
  "state_ok (setTimeout ms p s) = state_ok s"
  "state_ok (clearInterval h s) = state_ok s"
  "state_ok (broadcastLeaderboard s) = state_ok s"
  "state_ok (checkAndNotifyWinners s) = state_ok s"
  by (simp_all add: state_ok_def prim_defs)

lemma state_ok_registered:
  assumes "state_ok s" and "map_of (activePlayers s) sid = Some r"
  shows "r < nextRef s" and "obj_ok (heap s r)"
proof -
  have "(sid, r) \<in> set (activePlayers s)" using assms(2) by (rule map_of_SomeD)
  then show "r < nextRef s" using assms(1) by (fastforce simp: state_ok_def)
  then show "obj_ok (heap s r)" using assms(1) by (simp add: state_ok_def)
qed

lemma state_ok_startQuestionTimer [simp]:
  "state_ok (startQuestionTimer p now s) = state_ok s"
  by (simp add: state_ok_def obj_ok_def)

lemma submitAnswer_frame [simp]:
  "activePlayers (submitAnswer sid data s) = activePlayers s"
  "nextRef (submitAnswer sid data s) = nextRef s"
  "sockets (submitAnswer sid data s) = sockets s"
  by (simp_all add: submitAnswer_def submitAnswer_try_def prim_defs Let_def
        split: option.splits sum.splits error.splits)

lemma submitAnswer_player [simp]:
  "questionIndex (heap (submitAnswer sid data s) r) = questionIndex (heap s r)"
  "status (heap (submitAnswer sid data s) r) = status (heap s r)"
  "questionSet (heap (submitAnswer sid data s) r) = questionSet (heap s r)"
  "gameStartTime (heap (submitAnswer sid data s) r) = gameStartTime (heap s r)"
  "totalTimeMs (heap (submitAnswer sid data s) r) = totalTimeMs (heap s r)"
  by (simp_all add: submitAnswer_def submitAnswer_try_def prim_defs Let_def
        split: option.splits sum.splits error.splits)

lemma state_ok_submitAnswer [simp]:
  "state_ok (submitAnswer sid data s) = state_ok s"
  by (simp add: state_ok_def obj_ok_def)


lemma tick_frame:
  assumes "tick h s = Inr s'"
  shows "activePlayers s' = activePlayers s" and "nextRef s' = nextRef s"
    and "questionIndex (heap s' r) = questionIndex (heap s r)"
    and "status (heap s' r) = status (heap s r)"
    and "questionSet (heap s' r) = questionSet (heap s r)"
  using assms
  by (auto simp: tick_def prim_defs Let_def split: option.splits if_splits)

lemma state_ok_tick: "state_ok s \<Longrightarrow> tick h s = Inr s' \<Longrightarrow> state_ok s'"
  by (simp add: state_ok_def obj_ok_def tick_frame)

lemma moveToNextQuestion_frame [simp]:
  "activePlayers (moveToNextQuestion p now s) = activePlayers s"
  "nextRef (moveToNextQuestion p now s) = nextRef s"
  "timeouts (moveToNextQuestion p now s) = timeouts s"
  "sockets (moveToNextQuestion p now s) = sockets s"
  "questionSet (heap (moveToNextQuestion p now s) r) = questionSet (heap s r)"
  "score (heap (moveToNextQuestion p now s) r) = score (heap s r)"
  "gameStartTime (heap (moveToNextQuestion p now s) r) = gameStartTime (heap s r)"
  by (simp_all add: moveToNextQuestion_def prim_defs Let_def split: option.splits)

lemma moveToNextQuestion_other:
  assumes "map_of (activePlayers s) p \<noteq> Some r"
  shows "questionIndex (heap (moveToNextQuestion p now s) r) = questionIndex (heap s r)"
    and "status (heap (moveToNextQuestion p now s) r) = status (heap s r)"
    and "totalTimeMs (heap (moveToNextQuestion p now s) r) = totalTimeMs (heap s r)"
  using assms
  by (auto simp: moveToNextQuestion_def prim_defs Let_def split: option.splits)

lemma moveToNextQuestion_player:
  assumes "map_of (activePlayers s) p = Some r"
  shows "questionIndex (heap (moveToNextQuestion p now s) r) = questionIndex (heap s r) + 1"
    and "status (heap (moveToNextQuestion p now s) r) =
           (if questionIndex (heap s r) + 1 < MAX_QUESTIONS then status (heap s r) else Finished)"
    and "totalTimeMs (heap (moveToNextQuestion p now s) r) =
           (if questionIndex (heap s r) + 1 < MAX_QUESTIONS then totalTimeMs (heap s r)
            else now - gameStartTime (heap s r))"
  using assms
  by (auto simp: moveToNextQuestion_def prim_defs Let_def split: option.splits)

lemma state_ok_moveToNextQuestion:
  assumes "state_ok s"
  shows "state_ok (moveToNextQuestion p now s)"
proof -
  have "obj_ok (heap (moveToNextQuestion p now s) r)" if "r < nextRef s" for r
  proof (cases "map_of (activePlayers s) p = Some r")
    case True
    have "obj_ok (heap s r)" using assms that by (simp add: state_ok_def)
    then show ?thesis by (simp add: obj_ok_def moveToNextQuestion_player [OF True])
  next
    case False
    have "obj_ok (heap s r)" using assms that by (simp add: state_ok_def)
    then show ?thesis by (simp add: obj_ok_def moveToNextQuestion_other [OF False])
  qed
  then show ?thesis using assms by (simp add: state_ok_def)
qed

lemma state_ok_fireTimeout: "state_ok s \<Longrightarrow> state_ok (fireTimeout k now s)"
proof (cases "js_nth (timeouts s) k")
  case None
  then show "state_ok s \<Longrightarrow> ?thesis" by (simp add: fireTimeout_def)
next
  case (Some t)
  assume "state_ok s"
  then have "state_ok (s\<lparr>timeouts := take k (timeouts s) @ drop (Suc k) (timeouts s)\<rparr>)"
    by (simp add: state_ok_def)
  then show ?thesis using Some by (simp add: fireTimeout_def state_ok_moveToNextQuestion)
qed

lemma set_reg_set: "set (reg_set k r es) \<subseteq> insert (k, r) (set es)"
  by (induction es) auto

lemma length_generateQuestionSet: "length (generateQuestionSet draws) = MAX_QUESTIONS"
  by (simp add: generateQuestionSet_def)

lemma state_ok_joinGame:
  assumes "state_ok s"
  shows "state_ok (joinGame sid playerName draws rnd now tnow s)"
proof -
  let ?p = "\<lparr>pid = sid,
             name = (if truthy playerName then playerName else JStr (''Player '' @ show_nat rnd)),
             score = 0, questionIndex = 0, questionSet = generateQuestionSet draws,
             gameStartTime = now, totalTimeMs = 0, timer = None,
             status = InProgress, currentQuestionStartTime = None\<rparr>"
  let ?s1 = "s\<lparr>heap := (heap s)(nextRef s := ?p), nextRef := nextRef s + 1,
               activePlayers := reg_set sid (nextRef s) (activePlayers s)\<rparr>"
  have "obj_ok ?p" by (simp add: obj_ok_def length_generateQuestionSet MAX_QUESTIONS_def)
  moreover have "\<forall>e \<in> set (reg_set sid (nextRef s) (activePlayers s)). snd e < nextRef s + 1"
    using assms set_reg_set [of sid "nextRef s" "activePlayers s"]
    by (fastforce simp: state_ok_def)
  ultimately have "state_ok ?s1"
    using assms by (simp add: state_ok_def less_Suc_eq)
  then show ?thesis
    unfolding joinGame_def Let_def by simp
qed

lemma state_ok_disconnect: "state_ok s \<Longrightarrow> state_ok (disconnect sid s)"
  unfolding disconnect_def Let_def
  by (auto simp: state_ok_def clearInterval_def split: option.splits)

lemma state_ok_connection: "state_ok s \<Longrightarrow> state_ok (connection sid s)"
  by (simp add: connection_def state_ok_def)

lemma state_ok_step: "state_ok s \<Longrightarrow> step i s = Inr s' \<Longrightarrow> state_ok s'"
  by (cases i)
    (auto simp: state_ok_connection state_ok_joinGame state_ok_disconnect state_ok_fireTimeout
          dest: state_ok_tick)

lemma state_ok_initial: "state_ok initial"
  by (simp add: state_ok_def initial_def)

lemma reachable_state_ok: "reachable s \<Longrightarrow> state_ok s"
  by (induction rule: reachable.induct) (auto simp: state_ok_initial dest: state_ok_step)

text \<open>
  In a reachable state a session in progress has a current question, and a session whose
  index has reached the number of questions is finished.
\<close>

lemma reachable_current_question:
  assumes "reachable s" "map_of (activePlayers s) sid = Some r" "status (heap s r) = InProgress"
  shows "\<exists>q. js_nth (questionSet (heap s r)) (questionIndex (heap s r)) = Some q"
proof -
  have "obj_ok (heap s r)"
    using state_ok_registered(2) [OF reachable_state_ok [OF assms(1)] assms(2)] .
  then show ?thesis using assms(3) by (simp add: obj_ok_def js_nth_def)
qed

lemma reachable_index_ten_finished:
  assumes "reachable s" "map_of (activePlayers s) sid = Some r"
      and "MAX_QUESTIONS \<le> questionIndex (heap s r)"
  shows "status (heap s r) = Finished"
proof -
  have "obj_ok (heap s r)"
    using state_ok_registered(2) [OF reachable_state_ok [OF assms(1)] assms(2)] .
  then show ?thesis using assms(3) by (cases "status (heap s r)") (auto simp: obj_ok_def)
qed

text \<open>No input makes the index of a player object smaller.\<close>

lemma joinGame_frame:
  "nextRef (joinGame sid playerName draws rnd now tnow s) = nextRef s + 1"
  "r \<noteq> nextRef s \<Longrightarrow>
     questionIndex (heap (joinGame sid playerName draws rnd now tnow s) r) = questionIndex (heap s r)"
  by (simp_all add: joinGame_def Let_def emit_def)

lemma disconnect_frame:
  "nextRef (disconnect sid s) = nextRef s" "heap (disconnect sid s) = heap s"
  by (simp_all add: disconnect_def Let_def clearInterval_def split: option.splits)

lemma connection_frame:
  "nextRef (connection sid s) = nextRef s" "heap (connection sid s) = heap s"
  by (simp_all add: connection_def)

lemma moveToNextQuestion_index_mono:
  "questionIndex (heap s r) \<le> questionIndex (heap (moveToNextQuestion p now s) r)"
proof (cases "map_of (activePlayers s) p = Some r")
  case True
  then show ?thesis by (simp add: moveToNextQuestion_player)
next
  case False
  then show ?thesis by (simp add: moveToNextQuestion_other)
qed

lemma fireTimeout_frame:
  "nextRef (fireTimeout k now s) = nextRef s"
  "questionIndex (heap s r) \<le> questionIndex (heap (fireTimeout k now s) r)"
proof -
  show "nextRef (fireTimeout k now s) = nextRef s"
    by (simp add: fireTimeout_def split: option.splits)
  show "questionIndex (heap s r) \<le> questionIndex (heap (fireTimeout k now s) r)"
  proof (cases "js_nth (timeouts s) k")
    case None
    then show ?thesis by (simp add: fireTimeout_def)
  next
    case (Some t)
    then show ?thesis
      using moveToNextQuestion_index_mono
        [of "s\<lparr>timeouts := take k (timeouts s) @ drop (Suc k) (timeouts s)\<rparr>" r "snd t" now]
      by (simp add: fireTimeout_def)
  qed
qed

lemma step_questionIndex_mono:
  assumes "step i s = Inr s'" and "r < nextRef s"
  shows "questionIndex (heap s r) \<le> questionIndex (heap s' r)" and "nextRef s \<le> nextRef s'"
proof -
  show "questionIndex (heap s r) \<le> questionIndex (heap s' r)"
    using assms
    by (cases i)
      (auto simp: joinGame_frame disconnect_frame connection_frame fireTimeout_frame tick_frame)
  show "nextRef s \<le> nextRef s'"
    using assms(1)
    by (cases i)
      (auto simp: joinGame_frame disconnect_frame connection_frame fireTimeout_frame tick_frame)
qed

lemma run_questionIndex_mono:
  assumes "run is s = Inr s'" and "r < nextRef s"
  shows "questionIndex (heap s r) \<le> questionIndex (heap s' r)"
  using assms
proof (induction "is" arbitrary: s)
  case Nil
  then show ?case by simp
next
  case (Cons i "is")
  from Cons.prems(1) obtain s1 where s1: "step i s = Inr s1" "run is s1 = Inr s'"
    by (auto split: sum.splits)
  have "questionIndex (heap s r) \<le> questionIndex (heap s1 r)" and "r < nextRef s1"
    using step_questionIndex_mono [OF s1(1) Cons.prems(2)] Cons.prems(2) by simp_all
  moreover from this have "questionIndex (heap s1 r) \<le> questionIndex (heap s' r)"
    using Cons.IH [OF s1(2)] by simp
  ultimately show ?case by simp
qed

lemma run_reachable: "reachable s \<Longrightarrow> run is s = Inr s' \<Longrightarrow> reachable s'"
proof (induction "is" arbitrary: s)
  case Nil
  then show ?case by simp
next
  case (Cons i "is")
  from Cons.prems(2) obtain s1 where s1: "step i s = Inr s1" "run is s1 = Inr s'"
    by (auto split: sum.splits)
  have "reachable s1" using Cons.prems(1) s1(1) by (rule reachable_step)
  then show ?case using s1(2) by (rule Cons.IH)
qed

end
